theory Spec2Isabelle
  imports Complex_Main "HOL-Library.Word" "HOL-Library.Sublist"
begin

section \<open>JavaScript values\<close>

text \<open>
  A JavaScript string is a sequence of UTF-16 code units. String literals of the source
  are written with \<open>ascii\<close>. A JavaScript number is an IEEE double: a finite double is
  modelled as the real it denotes, and the values that are not numbers (\<open>NaN\<close>, and
  \<open>undefined\<close> read from an array hole) are \<open>None\<close>.
\<close>

type_synonym jschar = "16 word"
type_synonym jsstring = "jschar list"
type_synonym jsnum = "real option"

definition ascii :: "string \<Rightarrow> jsstring" where
  "ascii s = map (\<lambda>c. of_nat (of_char c)) s"

text \<open>
  Double arithmetic. The result of an operation is the exact result rounded to the
  nearest double, ties to the even significand: a double has a significand of 53 bits
  and a binary exponent of at least \<open>-1022\<close>, below which the doubles are equally
  spaced. Overflow to \<open>Infinity\<close> is not modelled: the lengths computed here are
  bounded by the size of the canvas. A decimal literal of the source denotes the
  double nearest to it. The lengths of the bars are computed with these operations.
  The geometry handed to the canvas (the centre, the radius, the font size and the
  end points of the bars, which go through \<open>Math.cos\<close> and \<open>Math.sin\<close>) is written
  with exact operations: no claim below depends on its value.
\<close>

definition round_even :: "real \<Rightarrow> int" where
  "round_even y =
     (let f = \<lfloor>y\<rfloor>; d = y - of_int f
      in if d < 1 / 2 then f
         else if 1 / 2 < d then f + 1
         else if even f then f else f + 1)"

definition exponent :: "real \<Rightarrow> int" where
  "exponent x = max \<lfloor>log 2 \<bar>x\<bar>\<rfloor> (- 1022)"

definition to_double :: "real \<Rightarrow> real" where
  "to_double x =
     (if x = 0 then 0
      else of_int (round_even (x / 2 powi (exponent x - 52))) * 2 powi (exponent x - 52))"

definition fmul :: "real \<Rightarrow> real \<Rightarrow> real" where
  "fmul a b = to_double (a * b)"

definition fdiv :: "real \<Rightarrow> real \<Rightarrow> real" where
  "fdiv a b = to_double (a / b)"

definition fsub :: "real \<Rightarrow> real \<Rightarrow> real" where
  "fsub a b = to_double (a - b)"

text \<open>The code units that \<open>String.prototype.trim\<close> removes: ECMAScript's WhiteSpace
  and LineTerminator.\<close>

definition is_white_space :: "jschar \<Rightarrow> bool" where
  "is_white_space c = (c \<in> set [0x9, 0xA, 0xB, 0xC, 0xD, 0x20, 0xA0, 0x1680,
     0x2000, 0x2001, 0x2002, 0x2003, 0x2004, 0x2005, 0x2006, 0x2007, 0x2008, 0x2009, 0x200A,
     0x2028, 0x2029, 0x202F, 0x205F, 0x3000, 0xFEFF])"

definition trim :: "jsstring \<Rightarrow> jsstring" where
  "trim s = rev (dropWhile is_white_space (rev (dropWhile is_white_space s)))"

text \<open>\<open>s.split(sep)\<close> for a separator of one code unit; \<open>''.split('.')\<close> is \<open>['']\<close>.\<close>

fun split_on :: "jschar \<Rightarrow> jsstring \<Rightarrow> jsstring list" where
  "split_on sep [] = [[]]"
| "split_on sep (c # cs) =
     (if c = sep then [] # split_on sep cs
      else (case split_on sep cs of
              [] \<Rightarrow> [[c]]
            | p # ps \<Rightarrow> (c # p) # ps))"

text \<open>\<open>Uint8Array\<close> read: \<open>undefined\<close> out of range, which arithmetic turns into
  \<open>NaN\<close>.\<close>

definition byte_at :: "8 word list \<Rightarrow> nat \<Rightarrow> jsnum" where
  "byte_at a k = (if k < length a then Some (real (unat (a ! k))) else None)"

text \<open>\<open>xs[i] || 0\<close> on an array of numbers: a hole, \<open>undefined\<close>, \<open>NaN\<close> and
  \<open>0\<close> all give \<open>0\<close>.\<close>

definition index_or_zero :: "jsnum list \<Rightarrow> nat \<Rightarrow> real" where
  "index_or_zero xs i =
     (if i < length xs then (case xs ! i of None \<Rightarrow> 0 | Some x \<Rightarrow> x) else 0)"

text \<open>\<open>xs[i] = v\<close>: JavaScript extends the array, leaving holes, when \<open>i\<close> is past the
  end.\<close>

definition store_at :: "jsnum list \<Rightarrow> nat \<Rightarrow> jsnum \<Rightarrow> jsnum list" where
  "store_at xs i v =
     (if i < length xs then xs[i := v]
      else xs @ replicate (i - length xs) None @ [v])"

section \<open>The 2D drawing surface\<close>

record image_el =
  iwidth :: nat
  iheight :: nat

datatype font_spec = DefaultFont | BoldPxArial real

type_synonym circle = "real \<times> real \<times> real"

text \<open>What a call has painted: the call with the style it was painted in.\<close>

datatype paint =
    FillRect jsstring real real real real
  | DrawImage image_el real real real real
  | StrokeLine jsstring real "real \<times> real" "real \<times> real"
  | FillText font_spec jsstring jsstring jsstring real real

record dstate =
  fillStyle :: jsstring
  strokeStyle :: jsstring
  font :: font_spec
  textAlign :: jsstring
  lineWidth :: real
  clip :: "circle list"

record ctx2d = dstate +
  saved :: "unit dstate_scheme list"
  painted :: "(circle list \<times> paint) list"

definition initial_ctx :: ctx2d where
  "initial_ctx = \<lparr> fillStyle = ascii ''#000000'', strokeStyle = ascii ''#000000'',
     font = DefaultFont, textAlign = ascii ''start'', lineWidth = 1, clip = [],
     saved = [], painted = [] \<rparr>"

text \<open>Assigning \<open>undefined\<close> or the empty string to a style is ignored by the canvas:
  the style keeps its value. Every other string is taken to be a colour the canvas
  accepts.\<close>

definition set_fillStyle :: "jsstring option \<Rightarrow> ctx2d \<Rightarrow> ctx2d" where
  "set_fillStyle v ctx =
     (case v of
        None \<Rightarrow> ctx
      | Some c \<Rightarrow> if c = [] then ctx else ctx\<lparr>fillStyle := c\<rparr>)"

definition set_strokeStyle :: "jsstring option \<Rightarrow> ctx2d \<Rightarrow> ctx2d" where
  "set_strokeStyle v ctx =
     (case v of
        None \<Rightarrow> ctx
      | Some c \<Rightarrow> if c = [] then ctx else ctx\<lparr>strokeStyle := c\<rparr>)"

definition put :: "paint \<Rightarrow> ctx2d \<Rightarrow> ctx2d" where
  "put p ctx = ctx\<lparr>painted := painted ctx @ [(clip ctx, p)]\<rparr>"

definition fillRect :: "ctx2d \<Rightarrow> real \<Rightarrow> real \<Rightarrow> real \<Rightarrow> real \<Rightarrow> ctx2d" where
  "fillRect ctx x y w h = put (FillRect (fillStyle ctx) x y w h) ctx"

definition fillText :: "ctx2d \<Rightarrow> jsstring \<Rightarrow> real \<Rightarrow> real \<Rightarrow> ctx2d" where
  "fillText ctx text x y = put (FillText (font ctx) (textAlign ctx) (fillStyle ctx) text x y) ctx"

definition save :: "ctx2d \<Rightarrow> ctx2d" where
  "save ctx = ctx\<lparr>saved := dstate.truncate ctx # saved ctx\<rparr>"

definition restore :: "ctx2d \<Rightarrow> ctx2d" where
  "restore ctx =
     (case saved ctx of
        [] \<Rightarrow> ctx
      | d # ds \<Rightarrow> ctx\<lparr>fillStyle := fillStyle d, strokeStyle := strokeStyle d, font := font d,
                     textAlign := textAlign d, lineWidth := lineWidth d, clip := clip d,
                     saved := ds\<rparr>)"

text \<open>\<open>beginPath(); arc(cx, cy, r, 0, 2\<pi>); clip()\<close>: the clip region is intersected
  with the full circle.\<close>

definition clip_circle :: "ctx2d \<Rightarrow> real \<Rightarrow> real \<Rightarrow> real \<Rightarrow> ctx2d" where
  "clip_circle ctx cx cy r = ctx\<lparr>clip := (cx, cy, r) # clip ctx\<rparr>"

text \<open>\<open>drawImage\<close> paints nothing when the image has no pixels.\<close>

definition drawImage :: "ctx2d \<Rightarrow> image_el \<Rightarrow> real \<Rightarrow> real \<Rightarrow> real \<Rightarrow> real \<Rightarrow> ctx2d" where
  "drawImage ctx img x y w h =
     (if iwidth img = 0 \<or> iheight img = 0 then ctx else put (DrawImage img x y w h) ctx)"

text \<open>\<open>beginPath(); moveTo(p); lineTo(q); stroke()\<close>. A \<open>lineTo\<close> with a coordinate
  that is not a number is dropped, and the path of a single point strokes nothing.\<close>

definition stroke_line :: "ctx2d \<Rightarrow> real \<times> real \<Rightarrow> (real \<times> real) option \<Rightarrow> ctx2d" where
  "stroke_line ctx p q =
     (case q of
        None \<Rightarrow> ctx
      | Some e \<Rightarrow> put (StrokeLine (strokeStyle ctx) (lineWidth ctx) p e) ctx)"

section \<open>drawTitle\<close>

text \<open>\<open>drawTitle\<close> of the live component.\<close>

definition drawTitle :: "ctx2d \<Rightarrow> jsstring \<Rightarrow> real \<Rightarrow> real \<Rightarrow> ctx2d" where
  "drawTitle ctx text width height =
     (if trim text = [] then ctx
      else
        let fontSize = max 24 (min (width * 0.05) 80);
            ctx = ctx\<lparr>font := BoldPxArial fontSize\<rparr>;
            ctx = ctx\<lparr>textAlign := ascii ''center''\<rparr>;
            ctx = ctx\<lparr>fillStyle := ascii ''rgba(255, 255, 255, 0.95)''\<rparr>;
            x = width / 2;
            y = height - (fontSize * 2)
        in fillText ctx text x y)"

text \<open>\<open>drawTitle\<close> of the application module, used by the capture loop.\<close>

definition drawTitle_App :: "ctx2d \<Rightarrow> jsstring \<Rightarrow> real \<Rightarrow> real \<Rightarrow> ctx2d" where
  "drawTitle_App ctx text width height =
     (if trim text = [] then ctx
      else
        let fontSize = max 24 (min (width * 0.05) 80);
            ctx = ctx\<lparr>font := BoldPxArial fontSize\<rparr>;
            ctx = ctx\<lparr>textAlign := ascii ''center''\<rparr>;
            ctx = ctx\<lparr>fillStyle := ascii ''rgba(255, 255, 255, 0.95)''\<rparr>;
            x = width / 2;
            y = height - (fontSize * 2)
        in fillText ctx text x y)"

section \<open>The bar loop\<close>

text \<open>
  The analysis node gives one byte per frequency bin; \<open>frequencyBinCount\<close> is their
  number, and \<open>getByteFrequencyData\<close> fills an array of that length with them.
\<close>

record analyser =
  bins :: "8 word list"

definition frequencyBinCount :: "analyser \<Rightarrow> nat" where
  "frequencyBinCount a = length (bins a)"

definition getByteFrequencyData :: "analyser \<Rightarrow> 8 word list" where
  "getByteFrequencyData a = bins a"

definition NUM_BARS :: nat where
  "NUM_BARS = 128"

text \<open>The index of the bin of bar \<open>i\<close>. Its quotient by a power of two, its halving and
  its product are exact in doubles for the bin counts an analysis node can have, and
  are written exactly.\<close>

definition dataIndex :: "nat \<Rightarrow> nat \<Rightarrow> nat" where
  "dataIndex i binCount = nat \<lfloor>(real i / real NUM_BARS) * (real binCount * 0.5)\<rfloor>"

definition targetLength :: "8 word list \<Rightarrow> nat \<Rightarrow> real \<Rightarrow> jsnum" where
  "targetLength dataArray k maxBarLength =
     (case byte_at dataArray k of
        None \<Rightarrow> None
      | Some b \<Rightarrow> Some (fmul (fdiv b 255) maxBarLength))"

text \<open>The conditional of the loop; a comparison with \<open>NaN\<close> is false and
  \<open>Math.max\<close> of \<open>NaN\<close> is \<open>NaN\<close>.\<close>

definition newLength :: "jsnum \<Rightarrow> real \<Rightarrow> real \<Rightarrow> jsnum" where
  "newLength target oldLength maxBarLength =
     (case target of
        None \<Rightarrow> None
      | Some t \<Rightarrow>
          Some (if t \<ge> oldLength then t
                else max t (fsub oldLength (fmul maxBarLength (to_double 0.025)))))"

text \<open>\<open>barColors[i % colorCount]\<close>: with no colour the remainder is \<open>NaN\<close> and the read
  is \<open>undefined\<close>.\<close>

definition bar_color :: "jsstring list \<Rightarrow> nat \<Rightarrow> jsstring option" where
  "bar_color barColors i =
     (let colorCount = length barColors
      in if colorCount = 0 then None else Some (barColors ! (i mod colorCount)))"

record bar_env =
  e_dataArray :: "8 word list"
  e_binCount :: nat
  e_previous :: "jsnum list"
  e_barColors :: "jsstring list"
  e_cx :: real
  e_cy :: real
  e_radius :: real
  e_maxBarLength :: real

text \<open>One pass of the body of the \<open>for\<close> loop over the bars. The live loop and the
  capture loop have the same body. The length of the bar is computed in doubles; the
  coordinates handed to the canvas, which go through \<open>Math.cos\<close> and \<open>Math.sin\<close>, are
  written exactly.\<close>

definition bar_body :: "bar_env \<Rightarrow> nat \<Rightarrow> ctx2d \<times> jsnum list \<Rightarrow> ctx2d \<times> jsnum list" where
  "bar_body env i st =
     (let ctx = fst st;
          newBarLengths = snd st;
          k = dataIndex i (e_binCount env);
          target = targetLength (e_dataArray env) k (e_maxBarLength env);
          oldLength = index_or_zero (e_previous env) i;
          new = newLength target oldLength (e_maxBarLength env);
          newBarLengths = store_at newBarLengths i new;
          angle = (real i / real NUM_BARS) * 2 * pi - (pi / 2);
          startX = e_cx env + e_radius env * cos angle;
          startY = e_cy env + e_radius env * sin angle;
          endXY = (case new of
                   None \<Rightarrow> None
                 | Some l \<Rightarrow> Some (e_cx env + (e_radius env + l) * cos angle,
                                   e_cy env + (e_radius env + l) * sin angle));
          ctx = set_strokeStyle (bar_color (e_barColors env) i) ctx;
          ctx = ctx\<lparr>lineWidth := 4\<rparr>;
          ctx = stroke_line ctx (startX, startY) endXY
      in (ctx, newBarLengths))"

function bar_loop :: "bar_env \<Rightarrow> nat \<Rightarrow> ctx2d \<times> jsnum list \<Rightarrow> ctx2d \<times> jsnum list" where
  "bar_loop env i st =
     (if i < NUM_BARS then bar_loop env (Suc i) (bar_body env i st) else st)"
  by pat_completeness auto
termination
  by (relation "measure (\<lambda>(env, i, st). NUM_BARS - i)") auto

section \<open>The live frame\<close>

text \<open>
  The canvas element with its parent's client size (when it has a parent) and its 2D
  context. Assigning the width or the height of a canvas clears it and resets its
  context to the initial state.
\<close>

record canvas =
  cwidth :: nat
  cheight :: nat
  parentSize :: "(nat \<times> nat) option"
  has2d :: bool
  surface :: ctx2d

definition set_width :: "canvas \<Rightarrow> nat \<Rightarrow> canvas" where
  "set_width c w = c\<lparr>cwidth := w, surface := initial_ctx\<rparr>"

definition set_height :: "canvas \<Rightarrow> nat \<Rightarrow> canvas" where
  "set_height c h = c\<lparr>cheight := h, surface := initial_ctx\<rparr>"

record props =
  p_analyserNode :: "analyser option"
  p_isPlaying :: bool
  p_colors :: "jsstring list"
  p_videoTitle :: jsstring
  p_image :: "image_el option"

text \<open>
  \<open>draw\<close> of the live component: one frame on the canvas, from the bar lengths of the
  previous frame (\<open>barLengthsRef.current\<close>) to those of this one. The request for the
  next animation frame at its end paints nothing and is left out.
\<close>

definition draw :: "props \<Rightarrow> analyser \<Rightarrow> canvas \<times> jsnum list \<Rightarrow> canvas \<times> jsnum list" where
  "draw p analyserNode st =
     (let canvas = fst st;
          barLengths = snd st;
          dataArray = getByteFrequencyData analyserNode;
          canvas = (case parentSize canvas of
                      None \<Rightarrow> canvas
                    | Some (w, h) \<Rightarrow> set_height (set_width canvas w) h);
          width = real (cwidth canvas);
          height = real (cheight canvas);
          backgroundColor = (case p_colors p of [] \<Rightarrow> None | c # cs \<Rightarrow> Some c);
          barColors = drop 1 (p_colors p);
          ctx = surface canvas;
          ctx = set_fillStyle
                  (Some (case backgroundColor of
                           None \<Rightarrow> ascii ''#000000''
                         | Some c \<Rightarrow> if c = [] then ascii ''#000000'' else c)) ctx;
          ctx = fillRect ctx 0 0 width height;
          barColors = (if length barColors = 0
                       then barColors @ [ascii ''#8A2BE2'', ascii ''#FFFFFF'']
                       else barColors);
          cx = width / 2;
          cy = height / 2;
          radius = min width height * 0.2;
          maxBarLength = fmul (min width height) (to_double 0.35);
          ctx = (case p_image p of
                   None \<Rightarrow> ctx
                 | Some img \<Rightarrow>
                     let ctx = save ctx;
                         ctx = clip_circle ctx cx cy radius;
                         imgAspectRatio = real (iwidth img) / real (iheight img);
                         circleDiameter = radius * 2;
                         drawWidth = (if imgAspectRatio > 1 then circleDiameter
                                      else circleDiameter * imgAspectRatio);
                         drawHeight = (if imgAspectRatio > 1 then circleDiameter / imgAspectRatio
                                       else circleDiameter);
                         drawX = cx - drawWidth / 2;
                         drawY = cy - drawHeight / 2;
                         ctx = drawImage ctx img drawX drawY drawWidth drawHeight
                     in restore ctx);
          env = \<lparr> e_dataArray = dataArray, e_binCount = frequencyBinCount analyserNode,
                  e_previous = barLengths, e_barColors = barColors,
                  e_cx = cx, e_cy = cy, e_radius = radius, e_maxBarLength = maxBarLength \<rparr>;
          res = bar_loop env 0 (ctx, []);
          ctx = drawTitle (fst res) (p_videoTitle p) width height
      in (canvas\<lparr>surface := ctx\<rparr>, snd res))"

text \<open>
  The effect of the live component, on the canvas (when the element is mounted) and
  the bar lengths: it returns at once without a canvas, an analysis node or a 2D
  context, and draws one frame otherwise. The requests for further animation frames
  while playing, and their cancellation, paint nothing and are left out.
\<close>

definition VisualizerCanvas_effect ::
  "props \<Rightarrow> canvas option \<times> jsnum list \<Rightarrow> canvas option \<times> jsnum list" where
  "VisualizerCanvas_effect p st =
     (case fst st of
        None \<Rightarrow> st
      | Some canvas \<Rightarrow>
          (case p_analyserNode p of
             None \<Rightarrow> st
           | Some analyserNode \<Rightarrow>
               if \<not> has2d canvas then st
               else let res = draw p analyserNode (canvas, snd st)
                    in (Some (fst res), snd res)))"

section \<open>The capture frame\<close>

datatype recorder_state = Inactive | Recording | Paused

record recorder =
  rstate :: recorder_state
  mimeType :: jsstring
  gathered :: nat

text \<open>What \<open>drawOffscreen\<close> closes over in \<open>handleDownload\<close>.\<close>

record capture_env =
  c_colors :: "jsstring list"
  c_image :: "image_el option"
  c_videoTitle :: jsstring
  c_width :: nat
  c_height :: nat

text \<open>
  \<open>drawOffscreen\<close>: one frame on the offscreen context, from \<open>offscreenBarLengths\<close>
  to its new value; nothing when the recorder is not recording. The request for the next
  animation frame is left out as above.
\<close>

definition drawOffscreen ::
  "capture_env \<Rightarrow> recorder option \<Rightarrow> analyser \<Rightarrow> ctx2d \<times> jsnum list \<Rightarrow> ctx2d \<times> jsnum list" where
  "drawOffscreen cl mediaRecorder analyser st =
     (if (case mediaRecorder of None \<Rightarrow> True | Some r \<Rightarrow> rstate r \<noteq> Recording) then st
      else
        let offscreenCtx = fst st;
            offscreenBarLengths = snd st;
            dataArray = getByteFrequencyData analyser;
            width = real (c_width cl);
            height = real (c_height cl);
            backgroundColor = (case c_colors cl of [] \<Rightarrow> None | c # cs \<Rightarrow> Some c);
            barColors = drop 1 (c_colors cl);
            ctx = set_fillStyle backgroundColor offscreenCtx;
            ctx = fillRect ctx 0 0 width height;
            cx = width / 2;
            cy = height / 2;
            radius = min width height * 0.2;
            maxBarLength = fmul (min width height) (to_double 0.35);
            ctx = (case c_image cl of
                     None \<Rightarrow> ctx
                   | Some img \<Rightarrow>
                       let ctx = save ctx;
                           ctx = clip_circle ctx cx cy radius;
                           imgAspectRatio = real (iwidth img) / real (iheight img);
                           circleDiameter = radius * 2;
                           drawHeight = (if imgAspectRatio > 1 then circleDiameter / imgAspectRatio
                                         else circleDiameter);
                           drawWidth = (if imgAspectRatio > 1 then circleDiameter
                                        else circleDiameter * imgAspectRatio);
                           ctx = drawImage ctx img (cx - drawWidth / 2) (cy - drawHeight / 2)
                                   drawWidth drawHeight
                       in restore ctx);
            env = \<lparr> e_dataArray = dataArray, e_binCount = frequencyBinCount analyser,
                    e_previous = offscreenBarLengths, e_barColors = barColors,
                    e_cx = cx, e_cy = cy, e_radius = radius, e_maxBarLength = maxBarLength \<rparr>;
            res = bar_loop env 0 (ctx, []);
            ctx = drawTitle_App (fst res) (c_videoTitle cl) width height
        in (ctx, snd res))"

section \<open>The application\<close>

datatype AspectRatio = Ratio_16_9 | Ratio_9_16

definition RESOLUTIONS :: "AspectRatio \<Rightarrow> nat \<times> nat" where
  "RESOLUTIONS r = (case r of Ratio_16_9 \<Rightarrow> (1920, 1080) | Ratio_9_16 \<Rightarrow> (1080, 1920))"

text \<open>A thrown value: an \<open>Error\<close> with its message, or anything else.\<close>

datatype thrown = Error jsstring | NotAnError

text \<open>
  The events the platform delivers to the handlers of the application: a chunk of
  recorded data with its size, the recorder's stop and error events, the end of the
  media, and the settlement of the promise of \<open>play()\<close>.
\<close>

datatype event = DataAvailable nat | Stop | RecorderError | Ended | PlayFulfilled | PlayRejected

text \<open>
  The state of \<open>App\<close>: its React state, its refs, the routing of the audio graph
  (whether the analysis node feeds the output, and how many recording taps the source
  feeds), what the handlers of a capture close over, the files handed to the user, and
  the tasks the platform has queued.
\<close>

record app =
  file_name :: "jsstring option"
  isPlaying :: bool
  isDownloading :: bool
  isGenerating :: bool
  colors :: "jsstring list"
  aspectRatio :: AspectRatio
  videoTitle :: jsstring
  centerImage :: "image_el option"
  errorMsg :: "jsstring option"
  audioRef :: bool
  audioContextRef :: bool
  analyserRef :: bool
  sourceRef :: bool
  mediaRecorderRef :: "recorder option"
  recordingChunksRef :: "nat list"
  analyserToDestination :: bool
  recordingTaps :: nat
  muted :: bool
  playbackRate :: real
  currentTime :: real
  offscreenCanvas :: "(nat \<times> nat) option"
  sessionFileName :: jsstring
  endedListener :: bool
  downloads :: "(jsstring \<times> nat list) list"
  tasks :: "event list"

text \<open>The provider's reply: the call failed, the text was not JSON, or the parsed
  object with its \<open>palette\<close> field when that is an array.\<close>

datatype ai_reply = CallFailed | NotJson | Json "jsstring list option"

definition generateColorPalette :: "ai_reply \<Rightarrow> thrown + jsstring list" where
  "generateColorPalette reply =
     (case reply of
        Json (Some palette) \<Rightarrow>
          if length palette > 0 then Inr palette
          else Inl (Error (ascii ''Could not generate a color palette. The AI service might be unavailable or the prompt was invalid.''))
      | _ \<Rightarrow> Inl (Error (ascii ''Could not generate a color palette. The AI service might be unavailable or the prompt was invalid.'')))"

text \<open>\<open>handleGeneratePalette\<close>, given what the awaited provider call gave.\<close>

definition handleGeneratePalette :: "thrown + jsstring list \<Rightarrow> app \<Rightarrow> app" where
  "handleGeneratePalette outcome s =
     (let s = s\<lparr>isGenerating := True\<rparr>;
          s = s\<lparr>errorMsg := None\<rparr>;
          caught = (case outcome of
                      Inl err \<Rightarrow> Some err
                    | Inr palette \<Rightarrow>
                        if length palette < 2
                        then Some (Error (ascii ''AI did not return a valid palette. Please try a different prompt.''))
                        else None);
          s = (case caught of
                 None \<Rightarrow> (case outcome of Inl err \<Rightarrow> s | Inr palette \<Rightarrow> s\<lparr>colors := palette\<rparr>)
               | Some err \<Rightarrow>
                   s\<lparr>errorMsg := Some (case err of
                                         Error message \<Rightarrow> message
                                       | NotAnError \<Rightarrow> ascii ''Failed to generate palette.'')\<rparr>)
      in s\<lparr>isGenerating := False\<rparr>)"

text \<open>The name of the downloaded file, from the name of the input file.\<close>

definition download_name :: "jsstring \<Rightarrow> jsstring" where
  "download_name name =
     (case split_on 0x2E name of
        [] \<Rightarrow> ascii ''undefined''
      | p # ps \<Rightarrow> p) @ ascii ''_visualizer.webm''"

text \<open>
  \<open>handleDownload\<close> up to the call of \<open>play()\<close>, whose promise the platform settles
  later. The platform says whether the offscreen canvas gives a 2D context and whether
  the VP9 type is supported.
\<close>

definition handleDownload :: "bool \<Rightarrow> bool \<Rightarrow> app \<Rightarrow> app" where
  "handleDownload ctx_ok vp9_ok s =
     (if isDownloading s \<or> file_name s = None \<or> \<not> analyserRef s \<or> \<not> audioContextRef s
         \<or> \<not> sourceRef s \<or> \<not> audioRef s then s
      else
        let s = s\<lparr>isDownloading := True\<rparr>;
            s = s\<lparr>errorMsg := None\<rparr>;
            s = s\<lparr>offscreenCanvas := Some (RESOLUTIONS (aspectRatio s))\<rparr>
        in if \<not> ctx_ok then s\<lparr>isDownloading := False\<rparr>
           else
             let s = s\<lparr>recordingTaps := Suc (recordingTaps s)\<rparr>;
                 options = (if vp9_ok then ascii ''video/webm; codecs=vp9,opus''
                            else ascii ''video/webm'');
                 s = s\<lparr>mediaRecorderRef :=
                         Some \<lparr> rstate = Inactive, mimeType = options, gathered = 0 \<rparr>\<rparr>;
                 s = s\<lparr>recordingChunksRef := []\<rparr>;
                 s = s\<lparr>sessionFileName := (case file_name s of None \<Rightarrow> [] | Some name \<Rightarrow> name)\<rparr>;
                 s = s\<lparr>endedListener := True\<rparr>;
                 s = s\<lparr>analyserToDestination := False\<rparr>;
                 s = s\<lparr>muted := False\<rparr>;
                 s = s\<lparr>playbackRate := 1\<rparr>;
                 s = s\<lparr>currentTime := 0\<rparr>
             in s)"

definition recorder_ondataavailable :: "nat \<Rightarrow> app \<Rightarrow> app" where
  "recorder_ondataavailable sz s =
     (if sz > 0 then s\<lparr>recordingChunksRef := recordingChunksRef s @ [sz]\<rparr> else s)"

text \<open>\<open>MediaRecorder.stop()\<close>: an active recorder becomes inactive, and a task is queued
  that delivers the data gathered so far and then the stop event.\<close>

definition recorder_stop :: "app \<Rightarrow> app" where
  "recorder_stop s =
     (case mediaRecorderRef s of
        None \<Rightarrow> s
      | Some r \<Rightarrow>
          if rstate r = Inactive then s
          else s\<lparr>mediaRecorderRef := Some (r\<lparr>rstate := Inactive, gathered := 0\<rparr>),
                 tasks := tasks s @ [DataAvailable (gathered r), Stop]\<rparr>)"

definition stopRecording :: "app \<Rightarrow> app" where
  "stopRecording s =
     (case mediaRecorderRef s of
        None \<Rightarrow> s
      | Some r \<Rightarrow> if rstate r = Recording then recorder_stop s else s)"

text \<open>\<open>recorder.onstop\<close>. Disconnecting the source from a tap it does not feed throws,
  and the rest of the handler is then not run.\<close>

definition recorder_onstop :: "app \<Rightarrow> app" where
  "recorder_onstop s =
     (let blob = recordingChunksRef s;
          s = s\<lparr>downloads := downloads s @ [(download_name (sessionFileName s), blob)]\<rparr>
      in if recordingTaps s = 0 then s
         else
           let s = s\<lparr>recordingTaps := recordingTaps s - 1\<rparr>;
               s = s\<lparr>analyserToDestination := True\<rparr>;
               s = s\<lparr>endedListener := False\<rparr>;
               s = s\<lparr>isDownloading := False\<rparr>;
               s = s\<lparr>isPlaying := False\<rparr>
           in s)"

definition recorder_onerror :: "app \<Rightarrow> app" where
  "recorder_onerror s =
     (let s = s\<lparr>errorMsg := Some (ascii ''An error occurred during video creation.'')\<rparr>
      in stopRecording s)"

text \<open>The end of the media: the audio element's \<open>onEnded\<close>, and the listener of the
  capture, which is registered once.\<close>

definition audio_ended :: "app \<Rightarrow> app" where
  "audio_ended s =
     (let s = (if endedListener s then stopRecording (s\<lparr>endedListener := False\<rparr>) else s)
      in s\<lparr>isPlaying := False\<rparr>)"

text \<open>The rejection handler of \<open>play()\<close>.\<close>

definition play_catch :: "app \<Rightarrow> app" where
  "play_catch s =
     (let s = s\<lparr>errorMsg := Some (ascii ''Could not start playback for recording.'')\<rparr>;
          s = s\<lparr>isDownloading := False\<rparr>;
          s = s\<lparr>analyserToDestination := True\<rparr>
      in s)"

text \<open>The fulfilment handler of \<open>play()\<close>. \<open>MediaRecorder.start()\<close> throws on a recorder
  that is not inactive, and the rejection handler then runs. The first frame that
  \<open>drawOffscreen\<close> paints is on the offscreen surface, not in this state.\<close>

definition play_then :: "app \<Rightarrow> app" where
  "play_then s =
     (case mediaRecorderRef s of
        None \<Rightarrow> play_catch s
      | Some r \<Rightarrow>
          if rstate r \<noteq> Inactive then play_catch s
          else
            let s = s\<lparr>mediaRecorderRef := Some (r\<lparr>rstate := Recording\<rparr>)\<rparr>
            in s\<lparr>isPlaying := True\<rparr>)"

fun dispatch :: "event \<Rightarrow> app \<Rightarrow> app" where
  "dispatch (DataAvailable sz) s = recorder_ondataavailable sz s"
| "dispatch Stop s = recorder_onstop s"
| "dispatch RecorderError s = recorder_onerror s"
| "dispatch Ended s = audio_ended s"
| "dispatch PlayFulfilled s = play_then s"
| "dispatch PlayRejected s = play_catch s"

text \<open>The encoder fails. A conforming platform makes the recorder inactive and fires
  the error, the data gathered and the stop event itself; another only fires the
  error.\<close>

definition encoder_fails :: "bool \<Rightarrow> app \<Rightarrow> app" where
  "encoder_fails conforming s =
     (if conforming then
        (case mediaRecorderRef s of
           None \<Rightarrow> s\<lparr>tasks := tasks s @ [RecorderError]\<rparr>
         | Some r \<Rightarrow>
             s\<lparr>mediaRecorderRef := Some (r\<lparr>rstate := Inactive, gathered := 0\<rparr>),
               tasks := tasks s @ [RecorderError, DataAvailable (gathered r), Stop]\<rparr>)
      else s\<lparr>tasks := tasks s @ [RecorderError]\<rparr>)"

fun weight :: "event \<Rightarrow> nat" where
  "weight RecorderError = 3"
| "weight Ended = 3"
| "weight e = 1"

text \<open>The platform runs the queued tasks, each of which may queue more, until none is
  left.\<close>

function run_tasks :: "app \<Rightarrow> app" where
  "run_tasks s =
     (case tasks s of
        [] \<Rightarrow> s
      | e # es \<Rightarrow> run_tasks (dispatch e (s\<lparr>tasks := es\<rparr>)))"
  by pat_completeness auto
termination
proof (relation "measure (\<lambda>s. sum_list (map weight (tasks s)))")
  show "wf (measure (\<lambda>s. sum_list (map weight (tasks s))))" by simp
next
  fix s :: app and e es
  assume queue: "tasks s = e # es"
  have stop: "sum_list (map weight (tasks (stopRecording t))) \<le> sum_list (map weight (tasks t)) + 2"
    for t
    by (simp add: stopRecording_def recorder_stop_def split: option.splits)
  have "sum_list (map weight (tasks (dispatch e t))) < sum_list (map weight (tasks t)) + weight e"
    for t
  proof (cases e)
    case RecorderError
    have "tasks (t\<lparr>errorMsg := Some (ascii ''An error occurred during video creation.'')\<rparr>) = tasks t"
      by simp
    with stop [of "t\<lparr>errorMsg := Some (ascii ''An error occurred during video creation.'')\<rparr>"]
    show ?thesis using RecorderError by (simp add: recorder_onerror_def Let_def)
  next
    case Ended
    have "tasks (t\<lparr>endedListener := False\<rparr>) = tasks t" by simp
    with stop [of "t\<lparr>endedListener := False\<rparr>"]
    show ?thesis using Ended by (simp add: audio_ended_def Let_def)
  qed (simp_all add: recorder_ondataavailable_def recorder_onstop_def play_then_def
         play_catch_def Let_def split: option.splits)
  from this [of "s\<lparr>tasks := es\<rparr>"] queue
  show "(dispatch e (s\<lparr>tasks := es\<rparr>), s) \<in> measure (\<lambda>s. sum_list (map weight (tasks s)))"
    by simp
qed

section \<open>Reading the frames\<close>

text \<open>The length the loop gives bar \<open>i\<close>: the expressions of its body, put together.\<close>

definition bar_value :: "bar_env \<Rightarrow> nat \<Rightarrow> jsnum" where
  "bar_value env i =
     newLength (targetLength (e_dataArray env) (dataIndex i (e_binCount env)) (e_maxBarLength env))
       (index_or_zero (e_previous env) i) (e_maxBarLength env)"

text \<open>The colours of the lines stroked on a surface, in the order of painting.\<close>

fun stroke_style :: "paint \<Rightarrow> jsstring list" where
  "stroke_style (StrokeLine c w p q) = [c]"
| "stroke_style other = []"

definition stroke_styles :: "(circle list \<times> paint) list \<Rightarrow> jsstring list" where
  "stroke_styles ps = concat (map (\<lambda>x. stroke_style (snd x)) ps)"

text \<open>The canvas a live frame paints on: resized to its parent when it has one.\<close>

definition resized :: "canvas \<Rightarrow> canvas" where
  "resized cv =
     (case parentSize cv of
        None \<Rightarrow> cv
      | Some (w, h) \<Rightarrow> set_height (set_width cv w) h)"

text \<open>A capture is under way: the recorder is recording and the source feeds a
  recording tap.\<close>

definition capturing :: "app \<Rightarrow> bool" where
  "capturing s =
     ((case mediaRecorderRef s of None \<Rightarrow> False | Some r \<Rightarrow> rstate r = Recording)
      \<and> 0 < recordingTaps s)"

text \<open>The routing is restored: the analysis node feeds the output again and the
  download is over.\<close>

definition restored :: "app \<Rightarrow> bool" where
  "restored s = (analyserToDestination s \<and> \<not> isDownloading s)"

text \<open>The routing is restored or will be: a stop event is queued, or an error event is
  queued for a recorder that still records.\<close>

definition restoring :: "app \<Rightarrow> bool" where
  "restoring s =
     (restored s
      \<or> (0 < recordingTaps s
          \<and> (Stop \<in> set (tasks s)
              \<or> ((case mediaRecorderRef s of None \<Rightarrow> False | Some r \<Rightarrow> rstate r = Recording)
                  \<and> RecorderError \<in> set (tasks s)))))"

section \<open>The specification's words\<close>

text \<open>
  The bar-state animator as the specification words it, over the previous lengths of
  the \<open>NUM_BARS = 128\<close> bars, in the arithmetic of the program's numbers:
  the bin of bar \<open>i\<close> is \<open>floor(i / NUM_BARS * binCount * 0.5)\<close>, the target is
  \<open>(sample[binIndex] / 255) * maxLength\<close>, and the new length is the target when it
  is at least the previous length, and otherwise the greater of the target and the
  previous length less \<open>maxLength * 0.025\<close>.
\<close>

definition advance_spec :: "real list \<Rightarrow> 8 word list \<Rightarrow> real \<Rightarrow> real list" where
  "advance_spec previous sample maxLength =
     map (\<lambda>i. let binIndex = nat \<lfloor>real i / real NUM_BARS * real (length sample) * 0.5\<rfloor>;
                   target = fmul (fdiv (real (unat (sample ! binIndex))) 255) maxLength
               in if target \<ge> previous ! i then target
                  else max target (fsub (previous ! i) (fmul maxLength (to_double 0.025))))
       [0..<NUM_BARS]"

text \<open>
  A name with its extension stripped, as the specification words the naming of the
  output file: the name up to its last dot, or the whole name when it has none.
\<close>

definition strip_extension_spec :: "jsstring \<Rightarrow> jsstring" where
  "strip_extension_spec name =
     (if 0x2E \<in> set name then rev (tl (dropWhile (\<lambda>c. c \<noteq> 0x2E) (rev name))) else name)"

section \<open>Example inputs\<close>

text \<open>The state of \<open>App\<close> when it is mounted: the initial values of its state and
  refs, nothing routed, nothing queued.\<close>

definition initial_app :: app where
  "initial_app = \<lparr> file_name = None, isPlaying = False, isDownloading = False,
     isGenerating = False,
     colors = [ascii ''#000000'', ascii ''#8A2BE2'', ascii ''#FFFFFF''],
     aspectRatio = Ratio_16_9, videoTitle = [], centerImage = None, errorMsg = None,
     audioRef = False, audioContextRef = False, analyserRef = False, sourceRef = False,
     mediaRecorderRef = None, recordingChunksRef = [],
     analyserToDestination = False, recordingTaps = 0,
     muted = False, playbackRate = 1, currentTime = 0,
     offscreenCanvas = None, sessionFileName = [], endedListener = False,
     downloads = [], tasks = [] \<rparr>"

text \<open>The application with a file loaded, after the audio graph has been set up by a
  first play and playback has been paused again.\<close>

definition loaded_app :: "jsstring \<Rightarrow> app" where
  "loaded_app name = initial_app\<lparr> file_name := Some name, audioRef := True,
     audioContextRef := True, analyserRef := True, sourceRef := True,
     analyserToDestination := True \<rparr>"

definition demo_analyser :: analyser where
  "demo_analyser = \<lparr> bins = [255, 128, 0, 64] \<rparr>"

definition demo_recorder :: recorder where
  "demo_recorder = \<lparr> rstate = Recording, mimeType = ascii ''video/webm'', gathered = 0 \<rparr>"

definition demo_canvas :: canvas where
  "demo_canvas = \<lparr> cwidth = 300, cheight = 150, parentSize = Some (640, 360), has2d = True,
     surface = initial_ctx \<rparr>"

definition demo_props :: props where
  "demo_props = \<lparr> p_analyserNode = Some demo_analyser, p_isPlaying = False,
     p_colors = [ascii ''#000000'', ascii ''#8A2BE2'', ascii ''#FFFFFF''],
     p_videoTitle = [], p_image = None \<rparr>"

definition demo_capture :: capture_env where
  "demo_capture = \<lparr> c_colors = [ascii ''#000000'', ascii ''#8A2BE2'', ascii ''#FFFFFF''],
     c_image = None, c_videoTitle = [], c_width = 1920, c_height = 1080 \<rparr>"

definition demo_env :: bar_env where
  "demo_env = \<lparr> e_dataArray = [255, 128, 0, 64], e_binCount = 4,
     e_previous = [Some 50, Some 100], e_barColors = [ascii ''#8A2BE2'', ascii ''#FFFFFF''],
     e_cx = 150, e_cy = 75, e_radius = 30, e_maxBarLength = 100 \<rparr>"

section \<open>The bar lengths of a frame\<close>

lemma dataIndex_bound: "i < NUM_BARS \<Longrightarrow> 1 \<le> n \<Longrightarrow> dataIndex i n < n"
proof -
  assume i: "i < NUM_BARS" and n: "1 \<le> n"
  have "real i / real NUM_BARS < 1" using i by (simp add: NUM_BARS_def)
  moreover have "0 < real n * 0.5" using n by simp
  ultimately have "(real i / real NUM_BARS) * (real n * 0.5) < 1 * (real n * 0.5)"
    by (rule mult_strict_right_mono)
  then have lt: "(real i / real NUM_BARS) * (real n * 0.5) < real n" using n by simp
  have "\<lfloor>(real i / real NUM_BARS) * (real n * 0.5)\<rfloor> < int n"
    using lt by (simp add: floor_less_iff)
  moreover have "0 < int n" using n by simp
  ultimately have "nat \<lfloor>(real i / real NUM_BARS) * (real n * 0.5)\<rfloor> < n" by linarith
  then show ?thesis by (simp only: dataIndex_def)
qed

lemma dataIndex_as_specified: "dataIndex i n = nat \<lfloor>real i / 128 * real n * 0.5\<rfloor>"
  by (simp add: dataIndex_def NUM_BARS_def)

lemma snd_bar_body:
  "snd (bar_body env i st) = store_at (snd st) i (bar_value env i)"
  by (simp add: bar_body_def bar_value_def Let_def)

lemma store_at_end: "store_at xs (length xs) v = xs @ [v]"
  by (simp add: store_at_def)

lemma bar_loop_lengths:
  "length (snd st) = i \<Longrightarrow> i \<le> NUM_BARS \<Longrightarrow>
   snd (bar_loop env i st) = snd st @ map (bar_value env) [i..<NUM_BARS]"
proof (induction env i st rule: bar_loop.induct)
  case (1 env i st)
  show ?case
  proof (cases "i < NUM_BARS")
    case True
    have len: "length (snd (bar_body env i st)) = Suc i"
      using "1.prems" by (simp add: snd_bar_body store_at_def)
    have "snd (bar_loop env (Suc i) (bar_body env i st))
        = snd (bar_body env i st) @ map (bar_value env) [Suc i..<NUM_BARS]"
      using "1.IH" [OF True len] True by simp
    also have "\<dots> = snd st @ map (bar_value env) [i..<NUM_BARS]"
      using "1.prems" True by (simp add: snd_bar_body store_at_def upt_conv_Cons)
    finally show ?thesis using True by (subst bar_loop.simps) simp
  next
    case False
    with "1.prems" have "i = NUM_BARS" by simp
    then show ?thesis by (subst bar_loop.simps) simp
  qed
qed

lemma bar_loop_result:
  "snd (bar_loop env 0 (ctx, [])) = map (bar_value env) [0..<NUM_BARS]"
  using bar_loop_lengths [of "(ctx, [])" 0 env] by simp

section \<open>Double arithmetic\<close>

lemma round_even_of_int [simp]: "round_even (of_int n) = n"
  by (simp add: round_even_def)

lemma round_even_bounds: "\<lfloor>y\<rfloor> \<le> round_even y" "round_even y \<le> \<lfloor>y\<rfloor> + 1"
  by (simp_all add: round_even_def Let_def)

lemma round_even_mono: "x \<le> y \<Longrightarrow> round_even x \<le> round_even y"
proof -
  assume le: "x \<le> y"
  have fl: "\<lfloor>x\<rfloor> \<le> \<lfloor>y\<rfloor>" using le by (rule floor_mono)
  show ?thesis
  proof (cases "\<lfloor>x\<rfloor> = \<lfloor>y\<rfloor>")
    case True
    then have "x - of_int \<lfloor>x\<rfloor> \<le> y - of_int \<lfloor>y\<rfloor>" using le by simp
    then show ?thesis using True by (auto simp add: round_even_def Let_def)
  next
    case False
    with fl have "\<lfloor>x\<rfloor> + 1 \<le> \<lfloor>y\<rfloor>" by simp
    with round_even_bounds(2) [of x] round_even_bounds(1) [of y] show ?thesis by linarith
  qed
qed

lemma round_even_error: "\<bar>of_int (round_even y) - y\<bar> \<le> 1 / 2"
proof -
  define f where "f = \<lfloor>y\<rfloor>"
  define d where "d = y - of_int f"
  have d: "0 \<le> d" "d < 1" unfolding d_def f_def by linarith+
  have y: "y = of_int f + d" by (simp add: d_def)
  have r: "round_even y = (if d < 1 / 2 then f else if 1 / 2 < d then f + 1
      else if even f then f else f + 1)"
    by (simp only: round_even_def Let_def f_def [symmetric] d_def [symmetric])
  show ?thesis
  proof (cases "d < 1 / 2")
    case True
    then have "round_even y = f" using r by simp
    then show ?thesis using y d True by simp
  next
    case False
    note nlt = this
    show ?thesis
    proof (cases "1 / 2 < d")
      case True
      then have "round_even y = f + 1" using r nlt by simp
      then show ?thesis using y d True by simp
    next
      case False
      with nlt have half: "d = 1 / 2" by simp
      then have "round_even y = f \<or> round_even y = f + 1" using r by simp
      then show ?thesis using y half by auto
    qed
  qed
qed

lemma round_even_le: "y \<le> of_int n \<Longrightarrow> round_even y \<le> n"
  using round_even_mono [of y "of_int n"] by simp

lemma round_even_ge: "of_int n \<le> y \<Longrightarrow> n \<le> round_even y"
  using round_even_mono [of "of_int n" y] by simp

lemma powi_pos [simp]: "0 < (2::real) powi k"
  by (simp add: power_int_def)

lemma powi_mono: "a \<le> b \<Longrightarrow> (2::real) powi a \<le> 2 powi b"
  by (simp add: power_int_increasing)

lemma log_floor_bounds:
  assumes "0 < x"
  shows "2 powi \<lfloor>log 2 x\<rfloor> \<le> x" "x < 2 powi (\<lfloor>log 2 x\<rfloor> + 1)"
proof -
  have "2 powr real_of_int \<lfloor>log 2 x\<rfloor> \<le> x \<and> x < 2 powr real_of_int (\<lfloor>log 2 x\<rfloor> + 1)"
    using floor_log_eq_powr_iff [of x 2 "\<lfloor>log 2 x\<rfloor>"] assms by simp
  then show "2 powi \<lfloor>log 2 x\<rfloor> \<le> x" "x < 2 powi (\<lfloor>log 2 x\<rfloor> + 1)"
    by (simp_all only: powr_real_of_int' [of 2, simplified])
qed

lemma floor_log_eq:
  assumes "2 powi k \<le> x" "x < 2 powi (k + 1)"
  shows "\<lfloor>log 2 x\<rfloor> = k"
proof -
  have pos: "0 < x" using assms(1) powi_pos [of k] by linarith
  have "2 powr real_of_int k \<le> x \<and> x < 2 powr real_of_int (k + 1)"
    using assms by (simp only: powr_real_of_int' [of 2, simplified])
  then show ?thesis using floor_log_eq_powr_iff [of x 2 k] pos by simp
qed

lemma powi_split: "(2::real) powi (a + b) = 2 powi a * 2 powi b"
  by (simp add: power_int_add)

lemma exponent_ge: "- 1022 \<le> exponent x"
  by (simp add: exponent_def)

lemma exponent_eq:
  assumes "2 powi k \<le> \<bar>x\<bar>" "\<bar>x\<bar> < 2 powi (k + 1)" "- 1022 \<le> k"
  shows "exponent x = k"
  using floor_log_eq [OF assms(1,2)] assms(3) by (simp add: exponent_def)

lemma to_double_eval:
  assumes "0 < x" "2 powi k \<le> x" "x < 2 powi (k + 1)" "- 1022 \<le> k"
  shows "to_double x = of_int (round_even (x / 2 powi (k - 52))) * 2 powi (k - 52)"
proof -
  have "exponent x = k" using assms by (intro exponent_eq) simp_all
  then show ?thesis using assms(1) by (simp add: to_double_def)
qed

lemma round_even_nonneg: "0 \<le> y \<Longrightarrow> 0 \<le> round_even y"
  using round_even_ge [of 0 y] by simp

lemma round_even_nonpos: "y \<le> 0 \<Longrightarrow> round_even y \<le> 0"
  using round_even_le [of y 0] by simp

lemma to_double_nonneg: "0 \<le> x \<Longrightarrow> 0 \<le> to_double x"
  by (simp add: to_double_def round_even_nonneg)

lemma to_double_nonpos: "x \<le> 0 \<Longrightarrow> to_double x \<le> 0"
proof -
  assume x: "x \<le> 0"
  have "x / 2 powi (exponent x - 52) \<le> 0" using x by (simp add: divide_nonpos_pos)
  then have "round_even (x / 2 powi (exponent x - 52)) \<le> 0" by (rule round_even_nonpos)
  then have "real_of_int (round_even (x / 2 powi (exponent x - 52))) * 2 powi (exponent x - 52) \<le> 0"
    by (simp add: mult_le_0_iff)
  then show ?thesis by (simp add: to_double_def)
qed

lemma exponent_mono: "0 < x \<Longrightarrow> x \<le> y \<Longrightarrow> exponent x \<le> exponent y"
proof -
  assume "0 < x" "x \<le> y"
  then have "log 2 x \<le> log 2 y" by simp
  then have "\<lfloor>log 2 x\<rfloor> \<le> \<lfloor>log 2 y\<rfloor>" by (rule floor_mono)
  then show ?thesis using \<open>0 < x\<close> \<open>x \<le> y\<close> by (simp add: exponent_def)
qed

lemma to_double_upper:
  assumes "0 < x"
  shows "to_double x \<le> 2 powi (exponent x + 1)"
proof -
  let ?e = "exponent x"
  let ?u = "(2::real) powi (?e - 52)"
  have split: "(2::real) powi (?e + 1) = 2 ^ 53 * ?u"
    using powi_split [of 53 "?e - 52"] by (simp add: add.commute)
  have td: "to_double x = real_of_int (round_even (x / ?u)) * ?u"
    using assms by (simp add: to_double_def)
  have "\<lfloor>log 2 x\<rfloor> \<le> ?e" using assms by (simp add: exponent_def)
  then have "2 powi (\<lfloor>log 2 x\<rfloor> + 1) \<le> (2::real) powi (?e + 1)" by (intro powi_mono) simp
  with log_floor_bounds(2) [OF assms] have "x < 2 ^ 53 * ?u" unfolding split by linarith
  then have "x / ?u < 2 ^ 53" by (simp add: pos_divide_less_eq)
  then have "x / ?u \<le> of_int (2 ^ 53)" by simp
  then have "round_even (x / ?u) \<le> 2 ^ 53" by (rule round_even_le)
  then have "real_of_int (round_even (x / ?u)) \<le> real_of_int (2 ^ 53)"
    by (simp only: of_int_le_iff)
  then have "real_of_int (round_even (x / ?u)) \<le> 2 ^ 53" by simp
  then have "real_of_int (round_even (x / ?u)) * ?u \<le> 2 ^ 53 * ?u"
    by (rule mult_right_mono) simp
  then show ?thesis unfolding td split .
qed

lemma to_double_lower:
  assumes "0 < y" "- 1022 < exponent y"
  shows "2 powi (exponent y) \<le> to_double y"
proof -
  let ?e = "exponent y"
  let ?u = "(2::real) powi (?e - 52)"
  have split: "(2::real) powi ?e = 2 ^ 52 * ?u"
    using powi_split [of 52 "?e - 52"] by simp
  have td: "to_double y = real_of_int (round_even (y / ?u)) * ?u"
    using assms by (simp add: to_double_def)
  have e: "?e = \<lfloor>log 2 y\<rfloor>" using assms by (simp add: exponent_def max_def split: if_splits)
  have "2 powi ?e \<le> y" using log_floor_bounds(1) [OF assms(1)] e by simp
  then have "2 ^ 52 * ?u \<le> y" unfolding split .
  then have "2 ^ 52 \<le> y / ?u" by (simp add: pos_le_divide_eq)
  then have "of_int (2 ^ 52) \<le> y / ?u" by simp
  then have "2 ^ 52 \<le> round_even (y / ?u)" by (rule round_even_ge)
  then have "real_of_int (2 ^ 52) \<le> real_of_int (round_even (y / ?u))"
    by (simp only: of_int_le_iff)
  then have "2 ^ 52 \<le> real_of_int (round_even (y / ?u))" by simp
  then have "2 ^ 52 * ?u \<le> real_of_int (round_even (y / ?u)) * ?u"
    by (rule mult_right_mono) simp
  then show ?thesis unfolding td split .
qed

lemma to_double_mono:
  assumes "0 < x" "x \<le> y"
  shows "to_double x \<le> to_double y"
proof (cases "exponent x = exponent y")
  case True
  have "x / 2 powi (exponent y - 52) \<le> y / 2 powi (exponent y - 52)"
    using assms(2) by (simp add: divide_right_mono)
  then have "round_even (x / 2 powi (exponent y - 52)) \<le> round_even (y / 2 powi (exponent y - 52))"
    by (rule round_even_mono)
  then have "real_of_int (round_even (x / 2 powi (exponent y - 52))) * 2 powi (exponent y - 52)
      \<le> real_of_int (round_even (y / 2 powi (exponent y - 52))) * 2 powi (exponent y - 52)"
    by (intro mult_right_mono) simp_all
  then show ?thesis using assms True by (simp add: to_double_def)
next
  case False
  with exponent_mono [OF assms] have lt: "exponent x < exponent y" by simp
  have y: "0 < y" using assms by linarith
  have "to_double x \<le> 2 powi (exponent x + 1)" using assms(1) by (rule to_double_upper)
  also have "\<dots> \<le> 2 powi (exponent y)" using lt by (intro powi_mono) simp
  also have "\<dots> \<le> to_double y"
    using y lt exponent_ge [of x] by (intro to_double_lower) simp_all
  finally show ?thesis .
qed

lemma to_double_error: "\<bar>to_double x - x\<bar> \<le> \<bar>x\<bar> / 2 ^ 53 + 2 powi (- 1075)"
proof (cases "x = 0")
  case True
  then show ?thesis by (simp add: to_double_def)
next
  case False
  let ?e = "exponent x"
  let ?u = "(2::real) powi (?e - 52)"
  have "real_of_int (round_even (x / ?u)) * ?u - x = (real_of_int (round_even (x / ?u)) - x / ?u) * ?u"
    by (simp add: left_diff_distrib)
  then have "\<bar>real_of_int (round_even (x / ?u)) * ?u - x\<bar>
      = \<bar>real_of_int (round_even (x / ?u)) - x / ?u\<bar> * \<bar>?u\<bar>"
    by (simp only: abs_mult)
  then have "\<bar>to_double x - x\<bar> = \<bar>real_of_int (round_even (x / ?u)) - x / ?u\<bar> * ?u"
    using False by (simp add: to_double_def)
  also have "\<dots> \<le> 1 / 2 * ?u"
    by (intro mult_right_mono round_even_error) simp
  also have "1 / 2 * ?u = 2 powi ?e / 2 ^ 53"
  proof -
    have "(2::real) powi ?e = 2 powi 52 * ?u" using powi_split [of 52 "?e - 52"] by simp
    then show ?thesis by simp
  qed
  also have "\<dots> \<le> (\<bar>x\<bar> + 2 powi (- 1022)) / 2 ^ 53"
  proof -
    have "2 powi ?e \<le> \<bar>x\<bar> + 2 powi (- 1022)"
    proof (cases "?e = - 1022")
      case True
      then show ?thesis by simp
    next
      case False
      then have "?e = \<lfloor>log 2 \<bar>x\<bar>\<rfloor>" by (simp add: exponent_def max_def split: if_splits)
      with log_floor_bounds(1) [of "\<bar>x\<bar>"] \<open>x \<noteq> 0\<close> have "2 powi ?e \<le> \<bar>x\<bar>" by simp
      moreover have "0 < (2::real) powi (- 1022)" by (rule powi_pos)
      ultimately show ?thesis by linarith
    qed
    then show ?thesis by (simp add: divide_right_mono)
  qed
  also have "\<dots> = \<bar>x\<bar> / 2 ^ 53 + 2 powi (- 1075)"
  proof -
    have "(2::real) powi (- 1022) = 2 powi 53 * 2 powi (- 1075)"
      using powi_split [of 53 "- 1075"] by simp
    then show ?thesis by (simp add: add_divide_distrib)
  qed
  finally show ?thesis .
qed

lemma powi_neg_numeral: "(2::real) powi (- numeral n) = 1 / 2 ^ numeral n"
  by (simp add: power_int_minus_divide)

lemma to_double_0 [simp]: "to_double 0 = 0"
  by (simp add: to_double_def)

lemma to_double_1 [simp]: "to_double 1 = 1"
  by (subst to_double_eval [of _ 0]) (simp_all add: powi_neg_numeral round_even_def Let_def)

lemma to_double_le_double:
  assumes "x \<le> m" and "0 \<le> m" and "to_double m = m"
  shows "to_double x \<le> m"
proof (cases "0 < x")
  case True
  from to_double_mono [OF True assms(1)] assms(3) show ?thesis by simp
next
  case False
  then have "to_double x \<le> 0" by (intro to_double_nonpos) simp
  with assms(2) show ?thesis by linarith
qed

text \<open>The doubles of a capture at 1080 lines: the maximal length, the target of the
  byte 92, the decay step, and the length that the target 0 leaves after one tick.\<close>

lemma double_0_35: "to_double 0.35 = 3152519739159347 / 9007199254740992"
  by (subst to_double_eval [of _ "- 2"])
     (simp_all add: powi_neg_numeral round_even_def Let_def)

lemma double_0_025: "to_double 0.025 = 3602879701896397 / 144115188075855872"
  by (subst to_double_eval [of _ "- 6"])
     (simp_all add: powi_neg_numeral round_even_def Let_def)

lemma double_378: "to_double 378 = 378"
  by (subst to_double_eval [of _ 8])
     (simp_all add: powi_neg_numeral round_even_def Let_def)

lemma max_length_1080: "fmul 1080 (to_double 0.35) = 378"
  unfolding fmul_def double_0_35
  by (subst to_double_eval [of _ 8])
     (simp_all add: powi_neg_numeral round_even_def Let_def)

lemma target_92: "fmul (fdiv 92 255) 378 = 1199580121334531 / 8796093022208"
proof -
  have q: "fdiv 92 255 = 6499312403420951 / 18014398509481984"
    unfolding fdiv_def
    by (subst to_double_eval [of _ "- 2"])
       (simp_all add: powi_neg_numeral round_even_def Let_def)
  show ?thesis
    unfolding q fmul_def
    by (subst to_double_eval [of _ 7])
       (simp_all add: powi_neg_numeral round_even_def Let_def)
qed

lemma target_0: "fmul (fdiv 0 255) 378 = 0"
  by (simp add: fmul_def fdiv_def)

lemma decay_378: "fmul 378 (to_double 0.025) = 5319877059831399 / 562949953421312"
  unfolding fmul_def double_0_025
  by (subst to_double_eval [of _ 3])
     (simp_all add: powi_neg_numeral round_even_def Let_def)

lemma decayed_92:
  "fsub (1199580121334531 / 8796093022208) (5319877059831399 / 562949953421312)
     = 8931656338197323 / 70368744177664"
  unfolding fsub_def
  by (subst to_double_eval [of _ 6])
     (simp_all add: powi_neg_numeral round_even_def Let_def)

lemma floor_log_le:
  assumes "0 < y" "y < 2 powi (k + 1)"
  shows "\<lfloor>log 2 y\<rfloor> \<le> k"
proof -
  have "(2::real) powi \<lfloor>log 2 y\<rfloor> < 2 powi (k + 1)"
    using log_floor_bounds(1) [OF assms(1)] assms(2) by linarith
  then have "\<not> k + 1 \<le> \<lfloor>log 2 y\<rfloor>" using powi_mono [of "k + 1" "\<lfloor>log 2 y\<rfloor>"] by linarith
  then show ?thesis by simp
qed

lemma exponent_bounds:
  assumes "0 < x"
  shows "x < 2 powi (exponent x + 1)" and "- 1022 < exponent x \<Longrightarrow> 2 powi (exponent x) \<le> x"
proof -
  have "x < 2 powi (\<lfloor>log 2 x\<rfloor> + 1)" by (rule log_floor_bounds(2) [OF assms])
  also have "\<dots> \<le> 2 powi (exponent x + 1)" using assms by (intro powi_mono) (simp add: exponent_def)
  finally show "x < 2 powi (exponent x + 1)" .
  assume "- 1022 < exponent x"
  then have "exponent x = \<lfloor>log 2 x\<rfloor>" using assms by (simp add: exponent_def max_def split: if_splits)
  then show "2 powi (exponent x) \<le> x" using log_floor_bounds(1) [OF assms] by simp
qed

lemma to_double_idem:
  assumes "0 \<le> x"
  shows "to_double (to_double x) = to_double x"
proof (cases "x = 0")
  case True
  then show ?thesis by simp
next
  case False
  with assms have pos: "0 < x" by simp
  define e where "e = exponent x"
  define u :: real where "u = 2 powi (e - 52)"
  define n where "n = round_even (x / u)"
  have u: "0 < u" by (simp add: u_def)
  have y: "to_double x = of_int n * u" using False by (simp add: to_double_def e_def u_def n_def)
  have up: "2 powi (e + 1) = 2 ^ 53 * u" using powi_split [of 53 "e - 52"] by (simp add: u_def add.commute)
  have lo: "2 powi e = 2 ^ 52 * u" using powi_split [of 52 "e - 52"] by (simp add: u_def)
  have "x < 2 ^ 53 * u" using exponent_bounds(1) [OF pos] unfolding e_def [symmetric] up .
  then have "x / u \<le> of_int (2 ^ 53)" using u by (simp add: field_simps)
  then have n_le: "n \<le> 2 ^ 53" unfolding n_def by (rule round_even_le)
  have n_ge: "0 \<le> n" unfolding n_def using pos u by (intro round_even_nonneg) simp
  consider "n = 0" | "n = 2 ^ 53" | "0 < n" "n < 2 ^ 53" using n_le n_ge by linarith
  then show ?thesis
  proof cases
    case 1
    then show ?thesis by (simp add: y)
  next
    case 2
    have val: "of_int n * u = 2 powi (e + 1)" using 2 up by simp
    have "to_double (2 powi (e + 1)) =
        of_int (round_even (2 powi (e + 1) / 2 powi (e + 1 - 52))) * 2 powi (e + 1 - 52)"
    proof (rule to_double_eval)
      show "(0::real) < 2 powi (e + 1)" by simp
      show "(2::real) powi (e + 1) \<le> 2 powi (e + 1)" by simp
      show "(2::real) powi (e + 1) < 2 powi (e + 1 + 1)" by (rule power_int_strict_increasing) simp_all
      show "- 1022 \<le> e + 1" using exponent_ge [of x] by (simp add: e_def)
    qed
    also have "2 powi (e + 1 - 52) = 2 * u" using powi_split [of 1 "e - 52"] by (simp add: u_def)
    also have "2 powi (e + 1) / (2 * u) = of_int (2 ^ 52)" unfolding up using u by simp
    also have "of_int (round_even (of_int (2 ^ 52))) * (2 * u) = 2 powi (e + 1)"
      unfolding up round_even_of_int by simp
    finally show ?thesis unfolding y val .
  next
    case 3
    have ypos: "0 < of_int n * u" using 3(1) u by simp
    have "real_of_int n < of_int (2 ^ 53)" using 3(2) by (simp only: of_int_less_iff)
    then have "of_int n * u < 2 ^ 53 * u" using u by simp
    then have yup: "of_int n * u < 2 powi (e + 1)" unfolding up .
    have ex: "exponent (of_int n * u) = e"
    proof (cases "- 1022 < e")
      case True
      then have "2 ^ 52 * u \<le> x" using exponent_bounds(2) [OF pos] unfolding e_def [symmetric] lo by simp
      then have "of_int (2 ^ 52) \<le> x / u" using u by (simp add: field_simps)
      then have "2 ^ 52 \<le> n" unfolding n_def by (rule round_even_ge)
      then have "real_of_int (2 ^ 52) \<le> of_int n" by (simp only: of_int_le_iff)
      then have "2 ^ 52 * u \<le> of_int n * u" using u by simp
      then have "2 powi e \<le> \<bar>of_int n * u\<bar>" using ypos unfolding lo by simp
      moreover have "\<bar>of_int n * u\<bar> < 2 powi (e + 1)" using ypos yup by simp
      ultimately show ?thesis using True by (intro exponent_eq) simp_all
    next
      case False
      then have e: "e = - 1022" using exponent_ge [of x] by (simp add: e_def)
      have "\<lfloor>log 2 (of_int n * u)\<rfloor> \<le> e" using ypos yup by (rule floor_log_le)
      then show ?thesis using ypos unfolding e by (simp add: exponent_def)
    qed
    have ne: "of_int n * u \<noteq> 0" using ypos by linarith
    have "to_double (of_int n * u) = of_int (round_even (of_int n * u / u)) * u"
      unfolding to_double_def ex u_def [symmetric] using ne by (simp only: if_False)
    also have "of_int n * u / u = of_int n" using u by simp
    finally show ?thesis unfolding y by simp
  qed
qed

lemma max_length_double:
  "to_double (fmul (min (real w) (real h)) (to_double 0.35))
     = fmul (min (real w) (real h)) (to_double 0.35)"
proof -
  have "0 \<le> min (real w) (real h) * to_double 0.35"
    by (intro mult_nonneg_nonneg to_double_nonneg) simp_all
  then show ?thesis unfolding fmul_def by (rule to_double_idem)
qed

lemma lost_92:
  "fsub (1199580121334531 / 8796093022208) (8931656338197323 / 70368744177664)
     = 5319877059831400 / 562949953421312"
  unfolding fsub_def
  by (subst to_double_eval [of _ 3])
     (simp_all add: powi_neg_numeral round_even_def Let_def)

section \<open>The bar lengths against the specification\<close>

lemma bar_value_in_range:
  assumes "i < NUM_BARS" "e_dataArray env \<noteq> []" "e_binCount env = length (e_dataArray env)"
  shows "bar_value env i =
     Some (let target = fmul (fdiv (real (unat (e_dataArray env ! dataIndex i (e_binCount env)))) 255)
                          (e_maxBarLength env);
               old = index_or_zero (e_previous env) i
           in if target \<ge> old then target
              else max target (fsub old (fmul (e_maxBarLength env) (to_double 0.025))))"
proof -
  have "dataIndex i (e_binCount env) < length (e_dataArray env)"
    using assms dataIndex_bound [of i "length (e_dataArray env)"]
    by (cases "e_dataArray env") simp_all
  then show ?thesis
    by (simp add: bar_value_def targetLength_def byte_at_def newLength_def Let_def)
qed

lemma index_or_zero_numbers: "i < length xs \<Longrightarrow> index_or_zero (map Some xs) i = xs ! i"
  by (simp add: index_or_zero_def)

lemma index_or_zero_empty: "i < n \<Longrightarrow> index_or_zero [] i = replicate n 0 ! i"
  by (simp add: index_or_zero_def)

lemma advance_spec_bar_value:
  assumes "e_dataArray env \<noteq> []" "e_binCount env = length (e_dataArray env)"
    and read: "\<And>i. i < NUM_BARS \<Longrightarrow> index_or_zero (e_previous env) i = previous ! i"
  shows "map (bar_value env) [0..<NUM_BARS] =
     map Some (advance_spec previous (e_dataArray env) (e_maxBarLength env))"
proof -
  have step: "bar_value env i =
      Some (let binIndex = nat \<lfloor>real i / real NUM_BARS * real (length (e_dataArray env)) * 0.5\<rfloor>;
                target = fmul (fdiv (real (unat (e_dataArray env ! binIndex))) 255) (e_maxBarLength env)
            in if target \<ge> previous ! i then target
               else max target (fsub (previous ! i) (fmul (e_maxBarLength env) (to_double 0.025))))"
    if "i < NUM_BARS" for i
  proof -
    have "dataIndex i (length (e_dataArray env))
        = nat \<lfloor>real i / real NUM_BARS * real (length (e_dataArray env)) * 0.5\<rfloor>"
      by (simp add: dataIndex_def)
    with bar_value_in_range [OF that assms(1,2)] show ?thesis
      by (simp only: read [OF that] assms(2) Let_def)
  qed
  show ?thesis
    unfolding advance_spec_def map_map comp_def
  proof (rule map_cong [OF refl])
    fix i assume "i \<in> set [0..<NUM_BARS]"
    then have "i < NUM_BARS" by (simp only: set_upt atLeastLessThan_iff)
    then show "bar_value env i =
      Some (let binIndex = nat \<lfloor>real i / real NUM_BARS * real (length (e_dataArray env)) * 0.5\<rfloor>;
                target = fmul (fdiv (real (unat (e_dataArray env ! binIndex))) 255) (e_maxBarLength env)
            in if target \<ge> previous ! i then target
               else max target (fsub (previous ! i) (fmul (e_maxBarLength env) (to_double 0.025))))"
      by (rule step)
  qed
qed

lemma bar_value_fields:
  "bar_value env i = bar_value \<lparr> e_dataArray = e_dataArray env, e_binCount = e_binCount env,
      e_previous = e_previous env, e_barColors = bc, e_cx = x, e_cy = y, e_radius = r,
      e_maxBarLength = e_maxBarLength env \<rparr> i"
  by (simp add: bar_value_def)

lemma snd_draw:
  "snd (draw p an (cv, prev)) =
     map (bar_value \<lparr> e_dataArray = bins an, e_binCount = length (bins an),
            e_previous = prev, e_barColors = bc, e_cx = x, e_cy = y, e_radius = r,
            e_maxBarLength = fmul (min (real (cwidth (resized cv))) (real (cheight (resized cv))))
                               (to_double 0.35) \<rparr>)
       [0..<NUM_BARS]"
  apply (simp only: draw_def Let_def snd_conv fst_conv bar_loop_result)
  apply (rule map_cong [OF refl])
  apply (subst bar_value_fields [where bc = bc and x = x and y = y and r = r])
  apply (simp only: bar_env.simps resized_def getByteFrequencyData_def frequencyBinCount_def)
  done

lemma snd_drawOffscreen:
  "rstate r = Recording \<Longrightarrow>
   snd (drawOffscreen cl (Some r) an (octx, prev)) =
     map (bar_value \<lparr> e_dataArray = bins an, e_binCount = length (bins an),
            e_previous = prev, e_barColors = bc, e_cx = x, e_cy = y, e_radius = rd,
            e_maxBarLength = fmul (min (real (c_width cl)) (real (c_height cl)))
                               (to_double 0.35) \<rparr>)
       [0..<NUM_BARS]"
  apply (simp only: drawOffscreen_def Let_def snd_conv fst_conv bar_loop_result option.case
           recorder_state.simps if_False not_not refl simp_thms)
  apply (rule map_cong [OF refl])
  apply (subst bar_value_fields [where bc = bc and x = x and y = y and r = rd])
  apply (simp only: bar_env.simps getByteFrequencyData_def frequencyBinCount_def)
  done



lemma drawOffscreen_lengths:
  assumes "bins an \<noteq> []" and "rstate r = Recording"
    and "\<And>i. i < NUM_BARS \<Longrightarrow> index_or_zero prev i = previous ! i"
  shows "snd (drawOffscreen cl (Some r) an (octx, prev))
           = map Some (advance_spec previous (bins an)
               (fmul (min (real (c_width cl)) (real (c_height cl))) (to_double 0.35)))"
proof -
  let ?m = "fmul (min (real (c_width cl)) (real (c_height cl))) (to_double 0.35)"
  let ?env = "\<lparr> e_dataArray = bins an, e_binCount = length (bins an),
            e_previous = prev, e_barColors = [], e_cx = 0, e_cy = 0, e_radius = 0,
            e_maxBarLength = ?m \<rparr>"
  have "snd (drawOffscreen cl (Some r) an (octx, prev)) = map (bar_value ?env) [0..<NUM_BARS]"
    using assms(2) by (rule snd_drawOffscreen)
  also have "\<dots> = map Some (advance_spec previous (e_dataArray ?env) (e_maxBarLength ?env))"
    using assms(1,3) by (intro advance_spec_bar_value) simp_all
  also have "e_dataArray ?env = bins an" by simp
  also have "e_maxBarLength ?env = ?m" by simp
  finally show ?thesis .
qed

lemma draw_runs_bar_loop:
  "snd (draw p an (cv, prev))
     = snd (bar_loop (env\<lparr>e_dataArray := getByteFrequencyData an,
              e_binCount := frequencyBinCount an, e_previous := prev,
              e_maxBarLength := fmul (min (real (cwidth (resized cv))) (real (cheight (resized cv))))
                                  (to_double 0.35)\<rparr>) 0 (ctx, []))"
proof -
  let ?m = "fmul (min (real (cwidth (resized cv))) (real (cheight (resized cv)))) (to_double 0.35)"
  let ?env = "env\<lparr>e_dataArray := getByteFrequencyData an,
              e_binCount := frequencyBinCount an, e_previous := prev, e_maxBarLength := ?m\<rparr>"
  have eq: "bar_value ?env i =
      bar_value \<lparr> e_dataArray = bins an, e_binCount = length (bins an),
            e_previous = prev, e_barColors = [], e_cx = 0, e_cy = 0, e_radius = 0,
            e_maxBarLength = ?m \<rparr> i" for i
    using bar_value_fields [of ?env i "[]" 0 0 0]
    by (simp add: getByteFrequencyData_def frequencyBinCount_def)
  show ?thesis
    unfolding bar_loop_result snd_draw [where bc = "[]" and x = 0 and y = 0 and r = 0]
    by (rule map_cong [OF refl]) (simp only: eq)
qed

lemma drawOffscreen_runs_bar_loop:
  assumes "rstate r = Recording"
  shows "snd (drawOffscreen cl (Some r) an (octx, prev))
     = snd (bar_loop (env\<lparr>e_dataArray := getByteFrequencyData an,
              e_binCount := frequencyBinCount an, e_previous := prev,
              e_maxBarLength := fmul (min (real (c_width cl)) (real (c_height cl)))
                                  (to_double 0.35)\<rparr>) 0 (ctx, []))"
proof -
  let ?m = "fmul (min (real (c_width cl)) (real (c_height cl))) (to_double 0.35)"
  let ?env = "env\<lparr>e_dataArray := getByteFrequencyData an,
              e_binCount := frequencyBinCount an, e_previous := prev, e_maxBarLength := ?m\<rparr>"
  have eq: "bar_value ?env i =
      bar_value \<lparr> e_dataArray = bins an, e_binCount = length (bins an),
            e_previous = prev, e_barColors = [], e_cx = 0, e_cy = 0, e_radius = 0,
            e_maxBarLength = ?m \<rparr> i" for i
    using bar_value_fields [of ?env i "[]" 0 0 0]
    by (simp add: getByteFrequencyData_def frequencyBinCount_def)
  show ?thesis
    unfolding bar_loop_result
      snd_drawOffscreen [OF assms, where bc = "[]" and x = 0 and y = 0 and rd = 0]
    by (rule map_cong [OF refl]) (simp only: eq)
qed

lemma single_bin_index:
  "i < NUM_BARS \<Longrightarrow> nat \<lfloor>real i / real NUM_BARS * real (length [b]) * 0.5\<rfloor> = 0"
proof -
  assume "i < NUM_BARS"
  then have "real i / real NUM_BARS < 1" by (simp add: NUM_BARS_def)
  then have "real i / real NUM_BARS * 0.5 < 1" by simp
  moreover have "0 \<le> real i / real NUM_BARS * 0.5" by simp
  ultimately have "\<lfloor>real i / real NUM_BARS * 0.5\<rfloor> = 0" by linarith
  then show ?thesis by simp
qed

lemma advance_spec_single_bin:
  assumes "\<And>i. i < NUM_BARS \<Longrightarrow> previous ! i = old"
  shows "advance_spec previous [b] m =
     replicate NUM_BARS
       (if fmul (fdiv (real (unat b)) 255) m \<ge> old then fmul (fdiv (real (unat b)) 255) m
        else max (fmul (fdiv (real (unat b)) 255) m) (fsub old (fmul m (to_double 0.025))))"
proof -
  let ?new = "if fmul (fdiv (real (unat b)) 255) m \<ge> old then fmul (fdiv (real (unat b)) 255) m
        else max (fmul (fdiv (real (unat b)) 255) m) (fsub old (fmul m (to_double 0.025)))"
  have "advance_spec previous [b] m = map (\<lambda>i. ?new) [0..<NUM_BARS]"
    unfolding advance_spec_def
  proof (rule map_cong [OF refl])
    fix i assume "i \<in> set [0..<NUM_BARS]"
    then have i: "i < NUM_BARS" by (simp only: set_upt atLeastLessThan_iff)
    show "(let binIndex = nat \<lfloor>real i / real NUM_BARS * real (length [b]) * 0.5\<rfloor>;
               target = fmul (fdiv (real (unat ([b] ! binIndex))) 255) m
           in if target \<ge> previous ! i then target
              else max target (fsub (previous ! i) (fmul m (to_double 0.025)))) = ?new"
      by (simp only: single_bin_index [OF i] assms [OF i] Let_def nth_Cons_0)
  qed
  also have "\<dots> = replicate (length [0..<NUM_BARS]) ?new" by (rule map_replicate_const)
  finally show ?thesis by (simp only: length_upt diff_zero)
qed

lemma attack_at_1080:
  "advance_spec (replicate NUM_BARS 0) [92] 378
     = replicate NUM_BARS (1199580121334531 / 8796093022208)"
proof -
  have "advance_spec (replicate NUM_BARS 0) [92] 378 =
     replicate NUM_BARS
       (if fmul (fdiv (real (unat (92 :: 8 word))) 255) 378 \<ge> 0
        then fmul (fdiv (real (unat (92 :: 8 word))) 255) 378
        else max (fmul (fdiv (real (unat (92 :: 8 word))) 255) 378)
               (fsub 0 (fmul 378 (to_double 0.025))))"
    by (rule advance_spec_single_bin) simp
  also have "real (unat (92 :: 8 word)) = 92" by simp
  finally have "advance_spec (replicate NUM_BARS 0) [92] 378 =
     replicate NUM_BARS
       (if (1199580121334531 / 8796093022208 :: real) \<ge> 0 then 1199580121334531 / 8796093022208
        else max (1199580121334531 / 8796093022208) (fsub 0 (fmul 378 (to_double 0.025))))"
    by (simp only: target_92)
  then show ?thesis by simp
qed

lemma decay_at_1080:
  "advance_spec (replicate NUM_BARS (1199580121334531 / 8796093022208)) [0] 378
     = replicate NUM_BARS (8931656338197323 / 70368744177664)"
proof -
  have "advance_spec (replicate NUM_BARS (1199580121334531 / 8796093022208)) [0] 378 =
     replicate NUM_BARS
       (if fmul (fdiv (real (unat (0 :: 8 word))) 255) 378 \<ge> 1199580121334531 / 8796093022208
        then fmul (fdiv (real (unat (0 :: 8 word))) 255) 378
        else max (fmul (fdiv (real (unat (0 :: 8 word))) 255) 378)
               (fsub (1199580121334531 / 8796093022208) (fmul 378 (to_double 0.025))))"
    by (rule advance_spec_single_bin) simp
  also have "real (unat (0 :: 8 word)) = 0" by simp
  finally have "advance_spec (replicate NUM_BARS (1199580121334531 / 8796093022208)) [0] 378 =
     replicate NUM_BARS
       (if (0 :: real) \<ge> 1199580121334531 / 8796093022208 then 0
        else max 0 (8931656338197323 / 70368744177664))"
    by (simp only: target_0 decay_378 decayed_92)
  then show ?thesis by simp
qed

lemma max_length_demo_capture:
  "fmul (min (real (c_width demo_capture)) (real (c_height demo_capture))) (to_double 0.35) = 378"
  using max_length_1080 by (simp add: demo_capture_def)

lemma to_double_step:
  assumes "0 \<le> m" and "to_double m = m"
  shows "0 \<le> fmul m (to_double 0.025)" and "fmul m (to_double 0.025) \<le> m"
    and "fmul m (to_double 0.025) \<le> m * 0.025 + m / 2 ^ 54 + 2 powi (- 1075)"
proof -
  let ?c = "to_double 0.025"
  have c: "?c = 3602879701896397 / 144115188075855872" by (rule double_0_025)
  have nn: "0 \<le> m * ?c" using assms(1) unfolding c by simp
  then show "0 \<le> fmul m ?c" unfolding fmul_def by (rule to_double_nonneg)
  have "m * ?c \<le> m" using assms(1) unfolding c by simp
  then show "fmul m ?c \<le> m" unfolding fmul_def using assms by (rule to_double_le_double)
  have "\<bar>to_double (m * ?c) - m * ?c\<bar> \<le> \<bar>m * ?c\<bar> / 2 ^ 53 + 2 powi (- 1075)"
    by (rule to_double_error)
  then have "to_double (m * ?c) \<le> m * ?c + (m * ?c) / 2 ^ 53 + 2 powi (- 1075)"
    using nn by linarith
  moreover have "m * ?c + (m * ?c) / 2 ^ 53 \<le> m * 0.025 + m / 2 ^ 54"
    using assms(1) unfolding c by simp
  ultimately show "fmul m ?c \<le> m * 0.025 + m / 2 ^ 54 + 2 powi (- 1075)"
    unfolding fmul_def by linarith
qed

lemma target_in_range:
  fixes b :: "8 word"
  assumes "0 \<le> m" and "to_double m = m"
  shows "0 \<le> fmul (fdiv (real (unat b)) 255) m" and "fmul (fdiv (real (unat b)) 255) m \<le> m"
proof -
  have "unat b < 2 ^ 8" using unsigned_less [of b, where ?'a = nat] by simp
  then have "unat b \<le> 255" by simp
  then have "real (unat b) \<le> real 255" by (simp only: of_nat_le_iff)
  then have le: "real (unat b) / 255 \<le> 1" by simp
  have "0 \<le> real (unat b)" by (rule of_nat_0_le_iff)
  then have ge: "0 \<le> real (unat b) / 255" by (rule divide_nonneg_nonneg) simp
  have q0: "0 \<le> fdiv (real (unat b)) 255" unfolding fdiv_def using ge by (rule to_double_nonneg)
  have q1: "fdiv (real (unat b)) 255 \<le> 1"
    unfolding fdiv_def using le by (rule to_double_le_double) simp_all
  have "0 \<le> fdiv (real (unat b)) 255 * m" using q0 assms(1) by (rule mult_nonneg_nonneg)
  then show "0 \<le> fmul (fdiv (real (unat b)) 255) m" unfolding fmul_def by (rule to_double_nonneg)
  have "fdiv (real (unat b)) 255 * m \<le> 1 * m" using q1 assms(1) by (rule mult_right_mono)
  then have "fdiv (real (unat b)) 255 * m \<le> m" by simp
  then show "fmul (fdiv (real (unat b)) 255) m \<le> m"
    unfolding fmul_def using assms by (rule to_double_le_double)
qed

lemma decayed_in_range:
  assumes "0 \<le> old" "old \<le> m" "to_double m = m"
  shows "fsub old (fmul m (to_double 0.025)) \<le> m"
    and "old - fsub old (fmul m (to_double 0.025)) \<le> m * 0.025 + m / 2 ^ 52 + 2 powi (- 1074)"
proof -
  let ?d = "fmul m (to_double 0.025)"
  have m: "0 \<le> m" using assms(1,2) by simp
  note d = to_double_step [OF m assms(3)]
  have "old - ?d \<le> m" using d(1) assms(2) by linarith
  then show "fsub old ?d \<le> m" unfolding fsub_def using m assms(3) by (rule to_double_le_double)
  have abs: "\<bar>old - ?d\<bar> \<le> m" using d(1,2) assms(1,2) by linarith
  have "\<bar>to_double (old - ?d) - (old - ?d)\<bar> \<le> \<bar>old - ?d\<bar> / 2 ^ 53 + 2 powi (- 1075)"
    by (rule to_double_error)
  moreover have "\<bar>old - ?d\<bar> / 2 ^ 53 \<le> m / 2 ^ 53" using abs by (simp add: divide_right_mono)
  ultimately have "old - ?d - to_double (old - ?d) \<le> m / 2 ^ 53 + 2 powi (- 1075)" by linarith
  moreover have "(2::real) powi (- 1074) = 2 * 2 powi (- 1075)"
    using powi_split [of 1 "- 1075"] by simp
  moreover have "m / 2 ^ 54 + m / 2 ^ 53 \<le> m / 2 ^ 52" using m by simp
  ultimately show "old - fsub old ?d \<le> m * 0.025 + m / 2 ^ 52 + 2 powi (- 1074)"
    unfolding fsub_def using d(3) by linarith
qed

section \<open>The claims about the bar animator\<close>

text \<open>
  Claim C10. For every bar index \<open>i\<close> in 0..127 and every bin count of at least 1, the
  data index \<open>floor((i / 128) * binCount * 0.5)\<close> that the loop computes is strictly
  less than the bin count, so the read of the sample array (whose length is the bin
  count, in the live and in the capture loop) is within bounds and gives a byte.
\<close>

theorem data_index_within_sample:
  assumes "i < NUM_BARS" and "1 \<le> binCount" and "length dataArray = binCount"
  shows "dataIndex i binCount = nat \<lfloor>(real i / 128) * real binCount * 0.5\<rfloor>
       \<and> dataIndex i binCount < binCount
       \<and> byte_at dataArray (dataIndex i binCount)
           = Some (real (unat (dataArray ! dataIndex i binCount)))"
  using dataIndex_bound [OF assms(1,2)] assms(3)
  by (simp add: dataIndex_as_specified byte_at_def)

theorem data_index_within_sample_witness:
  "(127::nat) < NUM_BARS \<and> (1::nat) \<le> 4 \<and> length [255, 128, 0, 64 :: 8 word] = 4
     \<and> dataIndex 127 4 = 1 \<and> dataIndex 127 4 < 4
     \<and> byte_at [255, 128, 0, 64] (dataIndex 127 4) = Some 128"
proof -
  have a: "(127::nat) < NUM_BARS" by (simp add: NUM_BARS_def)
  have b: "(1::nat) \<le> 4" by simp
  have c: "length [255, 128, 0, 64 :: 8 word] = 4" by simp
  have d: "dataIndex 127 4 = 1" by (simp add: dataIndex_def NUM_BARS_def)
  from data_index_within_sample [OF a b c] a b c d show ?thesis by simp
qed



text \<open>
  Claim C2, as stated, fails. In two consecutive frames of a capture at 1080 lines,
  the first from the byte 92 and the second from the byte 0, bar 0 has the previous
  length 136.376... within the maximal length 378 and falls to 126.926...: it loses
  more than \<open>378 * 0.025\<close>, because the product and the subtraction are rounded. The
  loss exceeds the bound both as real numbers and when the loss and the bound are
  themselves computed in doubles.
\<close>

theorem decay_exceeds_bound:
  "snd (drawOffscreen demo_capture (Some demo_recorder) \<lparr>bins = [92]\<rparr> (initial_ctx, [])) ! 0
     = Some (1199580121334531 / 8796093022208)
   \<and> snd (drawOffscreen demo_capture (Some demo_recorder) \<lparr>bins = [0]\<rparr>
          (drawOffscreen demo_capture (Some demo_recorder) \<lparr>bins = [92]\<rparr> (initial_ctx, []))) ! 0
     = Some (8931656338197323 / 70368744177664)
   \<and> fmul (min (real (c_width demo_capture)) (real (c_height demo_capture))) (to_double 0.35) = 378
   \<and> (0 :: real) \<le> 1199580121334531 / 8796093022208
   \<and> (1199580121334531 / 8796093022208 :: real) \<le> 378
   \<and> (378 :: real) * 0.025 < 1199580121334531 / 8796093022208 - 8931656338197323 / 70368744177664
   \<and> fmul 378 (to_double 0.025)
       < fsub (1199580121334531 / 8796093022208) (8931656338197323 / 70368744177664)"
proof -
  let ?old = "1199580121334531 / 8796093022208 :: real"
  let ?new = "8931656338197323 / 70368744177664 :: real"
  let ?f1 = "drawOffscreen demo_capture (Some demo_recorder) \<lparr>bins = [92]\<rparr> (initial_ctx, [])"
  have hr: "rstate demo_recorder = Recording" by (simp add: demo_recorder_def)
  have pos: "0 < NUM_BARS" by (simp add: NUM_BARS_def)
  have "snd ?f1 = map Some (advance_spec (replicate NUM_BARS 0) (bins \<lparr>bins = [92]\<rparr>)
           (fmul (min (real (c_width demo_capture)) (real (c_height demo_capture))) (to_double 0.35)))"
    by (rule drawOffscreen_lengths [OF _ hr]) (simp_all add: index_or_zero_empty)
  then have f1: "snd ?f1 = map Some (replicate NUM_BARS ?old)"
    by (simp only: max_length_demo_capture analyser.simps attack_at_1080)
  have "snd (drawOffscreen demo_capture (Some demo_recorder) \<lparr>bins = [0]\<rparr> (fst ?f1, snd ?f1))
     = map Some (advance_spec (replicate NUM_BARS ?old) (bins \<lparr>bins = [0]\<rparr>)
           (fmul (min (real (c_width demo_capture)) (real (c_height demo_capture))) (to_double 0.35)))"
    unfolding f1
  proof (rule drawOffscreen_lengths [OF _ hr])
    show "bins \<lparr>bins = [0]\<rparr> \<noteq> []" by simp
    show "index_or_zero (map Some (replicate NUM_BARS ?old)) i = replicate NUM_BARS ?old ! i"
      if "i < NUM_BARS" for i
      by (rule index_or_zero_numbers) (simp add: that)
  qed
  then have f2: "snd (drawOffscreen demo_capture (Some demo_recorder) \<lparr>bins = [0]\<rparr> ?f1)
     = map Some (replicate NUM_BARS ?new)"
    by (simp only: max_length_demo_capture analyser.simps decay_at_1080 prod.collapse)
  have a: "snd ?f1 ! 0 = Some ?old" using pos unfolding f1 by simp
  have b: "snd (drawOffscreen demo_capture (Some demo_recorder) \<lparr>bins = [0]\<rparr> ?f1) ! 0 = Some ?new"
    using pos unfolding f2 by simp
  have c: "(0 :: real) \<le> ?old" "?old \<le> 378" "(378 :: real) * 0.025 < ?old - ?new" by simp_all
  have d: "fmul 378 (to_double 0.025) < fsub ?old ?new" unfolding decay_378 lost_92 by simp
  from a b c d max_length_demo_capture show ?thesis by (intro conjI)
qed

text \<open>
  Claim C2, amended. For every maximal length that is a double, every previous bar
  length in \<open>[0, maxLength]\<close> and every sample byte, the loop gives the bar a length in
  \<open>[0, maxLength]\<close>; when the target is at least the previous length the new length is
  the target; and when the target is below the previous length, the bar does not fall
  below the target and loses at most \<open>maxLength * 0.025\<close> up to the rounding of the
  product and of the subtraction, which is at most \<open>maxLength / 2^52 + 2^-1074\<close>. The
  live frame and the capture frame both run this loop (\<open>draw_runs_bar_loop\<close>,
  \<open>drawOffscreen_runs_bar_loop\<close>), with a maximal length that is a double
  (\<open>max_length_double\<close>).
\<close>

theorem attack_decay_bounds:
  assumes "i < NUM_BARS" and "bins an \<noteq> []"
    and "to_double m = m" and "m < 2 ^ 1024"
    and "0 \<le> index_or_zero prev i" and "index_or_zero prev i \<le> m"
  shows "\<exists>n. snd (bar_loop (env\<lparr>e_dataArray := getByteFrequencyData an,
                 e_binCount := frequencyBinCount an, e_previous := prev,
                 e_maxBarLength := m\<rparr>) 0 (ctx, [])) ! i = Some n
            \<and> 0 \<le> n \<and> n \<le> m
            \<and> (fmul (fdiv (real (unat (bins an ! dataIndex i (frequencyBinCount an)))) 255) m
                  \<ge> index_or_zero prev i
                \<longrightarrow> n = fmul (fdiv (real (unat (bins an ! dataIndex i (frequencyBinCount an)))) 255) m)
            \<and> (fmul (fdiv (real (unat (bins an ! dataIndex i (frequencyBinCount an)))) 255) m
                  < index_or_zero prev i
                \<longrightarrow> n \<ge> fmul (fdiv (real (unat (bins an ! dataIndex i (frequencyBinCount an)))) 255) m
                    \<and> index_or_zero prev i - n \<le> m * 0.025 + m / 2 ^ 52 + 2 powi (- 1074))"
proof -
  let ?env = "env\<lparr>e_dataArray := getByteFrequencyData an,
                 e_binCount := frequencyBinCount an, e_previous := prev,
                 e_maxBarLength := m\<rparr>"
  define t where "t = fmul (fdiv (real (unat (bins an ! dataIndex i (frequencyBinCount an)))) 255) m"
  define old where "old = index_or_zero prev i"
  define s where "s = fsub old (fmul m (to_double 0.025))"
  define n where "n = (if t \<ge> old then t else max t s)"
  have old: "0 \<le> old" "old \<le> m" using assms(5,6) by (simp_all add: old_def)
  then have m: "0 \<le> m" by simp
  have t: "0 \<le> t" "t \<le> m" unfolding t_def using target_in_range [OF m assms(3)] by simp_all
  have s: "s \<le> m" "old - s \<le> m * 0.025 + m / 2 ^ 52 + 2 powi (- 1074)"
    unfolding s_def using decayed_in_range [OF old assms(3)] by simp_all
  have "snd (bar_loop ?env 0 (ctx, [])) ! i = map (bar_value ?env) [0..<NUM_BARS] ! i"
    by (simp only: bar_loop_result)
  also have "\<dots> = bar_value ?env i"
    using nth_map_upt [of i NUM_BARS 0 "bar_value ?env"] assms(1) by simp
  also have "\<dots> = Some n"
    using bar_value_in_range [of i ?env] assms(1,2)
    by (simp add: getByteFrequencyData_def frequencyBinCount_def Let_def n_def t_def old_def s_def)
  finally have res: "snd (bar_loop ?env 0 (ctx, [])) ! i = Some n" .
  have "0 \<le> n" using t old unfolding n_def by (auto simp: max_def)
  moreover have "n \<le> m" using t s old m unfolding n_def by (auto simp: max_def)
  moreover have "t \<ge> old \<longrightarrow> n = t" unfolding n_def by simp
  moreover have "t < old \<longrightarrow> n \<ge> t \<and> old - n \<le> m * 0.025 + m / 2 ^ 52 + 2 powi (- 1074)"
    using s(2) unfolding n_def by (auto simp: max_def)
  ultimately show ?thesis using res unfolding t_def old_def by blast
qed

theorem attack_decay_bounds_witness:
  "(0::nat) < NUM_BARS \<and> bins \<lparr>bins = [0]\<rparr> \<noteq> [] \<and> to_double 378 = 378 \<and> (378::real) < 2 ^ 1024
   \<and> 0 \<le> index_or_zero [Some (1199580121334531 / 8796093022208)] 0
   \<and> index_or_zero [Some (1199580121334531 / 8796093022208)] 0 \<le> 378
   \<and> snd (bar_loop (demo_env\<lparr>e_dataArray := getByteFrequencyData \<lparr>bins = [0]\<rparr>,
                 e_binCount := frequencyBinCount \<lparr>bins = [0]\<rparr>,
                 e_previous := [Some (1199580121334531 / 8796093022208)],
                 e_maxBarLength := 378\<rparr>) 0 (initial_ctx, [])) ! 0
       = Some (8931656338197323 / 70368744177664)
   \<and> fmul (fdiv (real (unat (bins \<lparr>bins = [0]\<rparr> ! dataIndex 0 (frequencyBinCount \<lparr>bins = [0]\<rparr>)))) 255) 378
       < index_or_zero [Some (1199580121334531 / 8796093022208)] 0
   \<and> (1199580121334531 / 8796093022208 :: real) - 8931656338197323 / 70368744177664
       \<le> 378 * 0.025 + 378 / 2 ^ 52 + 2 powi (- 1074)"
proof -
  let ?old = "1199580121334531 / 8796093022208 :: real"
  let ?new = "8931656338197323 / 70368744177664 :: real"
  let ?an = "\<lparr>bins = [0 :: 8 word]\<rparr>"
  let ?env = "demo_env\<lparr>e_dataArray := getByteFrequencyData ?an,
                 e_binCount := frequencyBinCount ?an,
                 e_previous := [Some ?old], e_maxBarLength := 378\<rparr>"
  let ?t = "fmul (fdiv (real (unat (bins ?an ! dataIndex 0 (frequencyBinCount ?an)))) 255) 378"
  have h1: "(0::nat) < NUM_BARS" by (simp add: NUM_BARS_def)
  have h2: "bins ?an \<noteq> []" by simp
  have h3: "to_double 378 = 378" by (rule double_378)
  have h4: "(378::real) < 2 ^ 1024" by simp
  have old: "index_or_zero [Some ?old] 0 = ?old" by (simp add: index_or_zero_def)
  have h5: "0 \<le> index_or_zero [Some ?old] 0" and h6: "index_or_zero [Some ?old] 0 \<le> 378"
    unfolding old by simp_all
  have t: "?t = 0"
    using target_0 by (simp add: dataIndex_def frequencyBinCount_def)
  have lt: "?t < index_or_zero [Some ?old] 0" unfolding t old by simp
  from attack_decay_bounds [OF h1 h2 h3 h4 h5 h6, of demo_env initial_ctx]
  obtain n where n: "snd (bar_loop ?env 0 (initial_ctx, [])) ! 0 = Some n"
    and dec: "?t < index_or_zero [Some ?old] 0 \<longrightarrow>
        ?t \<le> n \<and> index_or_zero [Some ?old] 0 - n \<le> 378 * 0.025 + 378 / 2 ^ 52 + 2 powi (- 1074)"
    by blast
  have "snd (bar_loop ?env 0 (initial_ctx, [])) ! 0 = map (bar_value ?env) [0..<NUM_BARS] ! 0"
    by (simp only: bar_loop_result)
  also have "\<dots> = bar_value ?env 0"
    using nth_map_upt [of 0 NUM_BARS 0 "bar_value ?env"] h1 by simp
  also have "\<dots> = Some (if ?t \<ge> ?old then ?t
                        else max ?t (fsub ?old (fmul 378 (to_double 0.025))))"
    using bar_value_in_range [of 0 ?env] h1
    by (simp add: getByteFrequencyData_def frequencyBinCount_def Let_def old)
  also have "\<dots> = Some (max 0 (fsub ?old (fmul 378 (to_double 0.025))))"
    unfolding t by simp
  also have "\<dots> = Some (max 0 ?new)" by (simp only: decay_378 decayed_92)
  also have "\<dots> = Some ?new" by simp
  finally have val: "snd (bar_loop ?env 0 (initial_ctx, [])) ! 0 = Some ?new" .
  with n have "n = ?new" by simp
  with dec lt have bound: "?old - ?new \<le> 378 * 0.025 + 378 / 2 ^ 52 + 2 powi (- 1074)"
    unfolding old by blast
  from h1 h2 h3 h4 h5 h6 val lt bound show ?thesis by (intro conjI)
qed

section \<open>The title\<close>

lemma dropWhile_all: "dropWhile P xs = [] \<longleftrightarrow> list_all P xs"
  by (induction xs) auto

lemma trim_blank: "trim t = [] \<longleftrightarrow> list_all is_white_space t"
proof -
  have "trim t = [] \<longleftrightarrow> list_all is_white_space (dropWhile is_white_space t)"
    by (simp add: trim_def dropWhile_all list_all_iff)
  also have "\<dots> \<longleftrightarrow> dropWhile is_white_space t = []"
  proof
    assume all: "list_all is_white_space (dropWhile is_white_space t)"
    show "dropWhile is_white_space t = []"
    proof (rule ccontr)
      assume ne: "dropWhile is_white_space t \<noteq> []"
      then have "\<not> is_white_space (hd (dropWhile is_white_space t))"
        by (rule hd_dropWhile)
      moreover have "is_white_space (hd (dropWhile is_white_space t))"
        using all ne by (cases "dropWhile is_white_space t") simp_all
      ultimately show False by simp
    qed
  next
    assume "dropWhile is_white_space t = []"
    then show "list_all is_white_space (dropWhile is_white_space t)"
      by (simp only: list.pred_inject)
  qed
  also have "\<dots> \<longleftrightarrow> list_all is_white_space t" by (rule dropWhile_all)
  finally show ?thesis .
qed

lemma drawTitle_blank: "list_all is_white_space t \<Longrightarrow> drawTitle ctx t w h = ctx"
  by (simp add: drawTitle_def trim_blank)

lemma drawTitle_App_blank: "list_all is_white_space t \<Longrightarrow> drawTitle_App ctx t w h = ctx"
  by (simp add: drawTitle_App_def trim_blank)

lemma draw_blank_title:
  assumes "list_all is_white_space t"
  shows "draw (p\<lparr>p_videoTitle := t\<rparr>) an st = draw (p\<lparr>p_videoTitle := []\<rparr>) an st"
proof -
  have "drawTitle c t w h = drawTitle c [] w h" for c w h
    using assms by (simp add: drawTitle_blank)
  then show ?thesis
    by (cases p) (simp only: draw_def props.simps)
qed

lemma drawOffscreen_blank_title:
  assumes "list_all is_white_space t"
  shows "drawOffscreen (cl\<lparr>c_videoTitle := t\<rparr>) rec an st
       = drawOffscreen (cl\<lparr>c_videoTitle := []\<rparr>) rec an st"
proof -
  have "drawTitle_App c t w h = drawTitle_App c [] w h" for c w h
    using assms by (simp add: drawTitle_App_blank)
  then show ?thesis
    by (cases cl) (simp only: drawOffscreen_def capture_env.simps)
qed

lemma drawTitle_text:
  "\<not> list_all is_white_space t \<Longrightarrow>
   painted (drawTitle ctx t w h) = painted ctx @
     [(clip ctx, FillText (BoldPxArial (max 24 (min (w * 0.05) 80))) (ascii ''center'')
        (ascii ''rgba(255, 255, 255, 0.95)'') t (w / 2) (h - max 24 (min (w * 0.05) 80) * 2))]"
  by (simp add: drawTitle_def trim_blank Let_def fillText_def put_def)

text \<open>
  Claim C8. For every palette, image, bar lengths and surface, a frame with an empty or
  whitespace-only title is the frame with no title: drawing the title leaves the
  surface as it is when the trimmed title is empty, in the live frame and in the
  capture frame.
\<close>

theorem blank_title_draws_nothing:
  assumes "list_all is_white_space title"
  shows "drawTitle ctx title w h = ctx
       \<and> drawTitle_App ctx title w h = ctx
       \<and> draw (p\<lparr>p_videoTitle := title\<rparr>) an st = draw (p\<lparr>p_videoTitle := []\<rparr>) an st
       \<and> drawOffscreen (cl\<lparr>c_videoTitle := title\<rparr>) rec an ost
           = drawOffscreen (cl\<lparr>c_videoTitle := []\<rparr>) rec an ost"
  using assms
  by (intro conjI drawTitle_blank drawTitle_App_blank draw_blank_title drawOffscreen_blank_title)

theorem blank_title_draws_nothing_witness:
  "list_all is_white_space (ascii ''  '')
   \<and> drawTitle initial_ctx (ascii ''  '') 640 360 = initial_ctx
   \<and> drawTitle_App initial_ctx (ascii ''  '') 1920 1080 = initial_ctx
   \<and> draw (demo_props\<lparr>p_videoTitle := ascii ''  ''\<rparr>) demo_analyser (demo_canvas, [])
       = draw (demo_props\<lparr>p_videoTitle := []\<rparr>) demo_analyser (demo_canvas, [])
   \<and> drawOffscreen (demo_capture\<lparr>c_videoTitle := ascii ''  ''\<rparr>) (Some demo_recorder)
         demo_analyser (initial_ctx, [])
       = drawOffscreen (demo_capture\<lparr>c_videoTitle := []\<rparr>) (Some demo_recorder)
         demo_analyser (initial_ctx, [])"
proof -
  have h: "list_all is_white_space (ascii ''  '')"
    by (simp add: ascii_def is_white_space_def)
  from blank_title_draws_nothing [OF h, of initial_ctx 640 360]
  have a: "drawTitle initial_ctx (ascii ''  '') 640 360 = initial_ctx" by blast
  from blank_title_draws_nothing [OF h, of initial_ctx 1920 1080]
  have b: "drawTitle_App initial_ctx (ascii ''  '') 1920 1080 = initial_ctx" by blast
  from blank_title_draws_nothing [OF h, where p = demo_props and an = demo_analyser
      and st = "(demo_canvas, [])" and cl = demo_capture and rec = "Some demo_recorder"
      and ost = "(initial_ctx, [])"]
  have c: "draw (demo_props\<lparr>p_videoTitle := ascii ''  ''\<rparr>) demo_analyser (demo_canvas, [])
       = draw (demo_props\<lparr>p_videoTitle := []\<rparr>) demo_analyser (demo_canvas, [])"
    and d: "drawOffscreen (demo_capture\<lparr>c_videoTitle := ascii ''  ''\<rparr>) (Some demo_recorder)
         demo_analyser (initial_ctx, [])
       = drawOffscreen (demo_capture\<lparr>c_videoTitle := []\<rparr>) (Some demo_recorder)
         demo_analyser (initial_ctx, [])"
    by blast+
  from h a b c d show ?thesis by blast
qed

section \<open>What a frame paints\<close>

declare bar_loop.simps [simp del]

lemma stroke_styles_append [simp]:
  "stroke_styles (xs @ ys) = stroke_styles xs @ stroke_styles ys"
  by (simp add: stroke_styles_def)

lemma stroke_styles_Nil [simp]: "stroke_styles [] = []"
  by (simp add: stroke_styles_def)

lemma stroke_styles_Cons [simp]:
  "stroke_styles (x # xs) = stroke_style (snd x) @ stroke_styles xs"
  by (simp add: stroke_styles_def)

lemma fst_bar_body:
  "fst (bar_body env i st) =
     stroke_line ((set_strokeStyle (bar_color (e_barColors env) i) (fst st))\<lparr>lineWidth := 4\<rparr>)
       (e_cx env + e_radius env * cos ((real i / real NUM_BARS) * 2 * pi - (pi / 2)),
        e_cy env + e_radius env * sin ((real i / real NUM_BARS) * 2 * pi - (pi / 2)))
       (case bar_value env i of
          None \<Rightarrow> None
        | Some l \<Rightarrow> Some (e_cx env + (e_radius env + l) * cos ((real i / real NUM_BARS) * 2 * pi - (pi / 2)),
                          e_cy env + (e_radius env + l) * sin ((real i / real NUM_BARS) * 2 * pi - (pi / 2))))"
  by (simp only: bar_body_def bar_value_def Let_def fst_conv)



lemma bar_body_prefix: "prefix (painted (fst st)) (painted (fst (bar_body env i st)))"
  by (simp add: fst_bar_body stroke_line_def put_def set_strokeStyle_def split: option.splits)

lemma bar_loop_prefix: "prefix (painted (fst st)) (painted (fst (bar_loop env i st)))"
proof (induction env i st rule: bar_loop.induct)
  case (1 env i st)
  show ?case
  proof (cases "i < NUM_BARS")
    case True
    from "1.IH" [OF True] bar_body_prefix [of st env i]
    have "prefix (painted (fst st)) (painted (fst (bar_loop env (Suc i) (bar_body env i st))))"
      by (rule prefix_order.trans [rotated])
    then show ?thesis using True by (subst bar_loop.simps) simp
  next
    case False
    then show ?thesis by (subst bar_loop.simps) simp
  qed
qed




lemma fillRect_facts:
  "painted (fillRect c x y w h) = painted c @ [(clip c, FillRect (fillStyle c) x y w h)]"
  "strokeStyle (fillRect c x y w h) = strokeStyle c"
  "clip (fillRect c x y w h) = clip c"
  by (simp_all add: fillRect_def put_def)

lemma set_fillStyle_facts:
  "painted (set_fillStyle v c) = painted c"
  "strokeStyle (set_fillStyle v c) = strokeStyle c"
  "clip (set_fillStyle v c) = clip c"
  by (simp_all add: set_fillStyle_def split: option.splits)

lemma image_block:
  "prefix (painted c) (painted (restore (drawImage (clip_circle (save c) a b r) img x y w h)))"
  "stroke_styles (painted (restore (drawImage (clip_circle (save c) a b r) img x y w h)))
     = stroke_styles (painted c)"
  "strokeStyle (restore (drawImage (clip_circle (save c) a b r) img x y w h)) = strokeStyle c"
  by (simp_all add: restore_def drawImage_def clip_circle_def save_def put_def
        dstate.truncate_def stroke_styles_def)

lemma title_facts:
  "prefix (painted c) (painted (drawTitle c t w h))"
  "stroke_styles (painted (drawTitle c t w h)) = stroke_styles (painted c)"
  "prefix (painted c) (painted (drawTitle_App c t w h))"
  "stroke_styles (painted (drawTitle_App c t w h)) = stroke_styles (painted c)"
  by (simp_all add: drawTitle_def drawTitle_App_def Let_def fillText_def put_def stroke_styles_def)

lemma surface_update: "surface (c\<lparr>surface := x\<rparr>) = x"
  by simp



lemma live_frame_background:
  "prefix (painted (surface (resized cv))
            @ [(clip (surface (resized cv)),
                FillRect (case p_colors p of [] \<Rightarrow> ascii ''#000000''
                          | c # cs \<Rightarrow> if c = [] then ascii ''#000000'' else c)
                  0 0 (real (cwidth (resized cv))) (real (cheight (resized cv))))])
     (painted (surface (fst (draw p an (cv, prev)))))"
proof -
  let ?bg = "case p_colors p of [] \<Rightarrow> ascii ''#000000''
                          | c # cs \<Rightarrow> if c = [] then ascii ''#000000'' else c"
  let ?filled = "fillRect (set_fillStyle (Some ?bg) (surface (resized cv))) 0 0
      (real (cwidth (resized cv))) (real (cheight (resized cv)))"
  have bg: "?bg \<noteq> []" by (simp add: ascii_def split: list.splits)
  have filled: "painted ?filled = painted (surface (resized cv))
            @ [(clip (surface (resized cv)),
                FillRect ?bg 0 0 (real (cwidth (resized cv))) (real (cheight (resized cv))))]"
    using bg by (simp add: fillRect_facts set_fillStyle_facts set_fillStyle_def)
  have "\<exists>ctx env. surface (fst (draw p an (cv, prev)))
      = drawTitle (fst (bar_loop env 0 (ctx, []))) (p_videoTitle p)
          (real (cwidth (resized cv))) (real (cheight (resized cv)))
      \<and> prefix (painted ?filled) (painted ctx)"
    apply (simp only: draw_def Let_def fst_conv surface_update resized_def [symmetric])
    apply (intro exI conjI)
     apply (rule refl)
    apply (cases "p_image p")
     apply (simp_all add: image_block split: list.splits)
    done
  then obtain ctx env where
    shape: "surface (fst (draw p an (cv, prev)))
      = drawTitle (fst (bar_loop env 0 (ctx, []))) (p_videoTitle p)
          (real (cwidth (resized cv))) (real (cheight (resized cv)))"
    and pre: "prefix (painted ?filled) (painted ctx)"
    by blast
  have "prefix (painted ctx) (painted (fst (bar_loop env 0 (ctx, []))))"
    using bar_loop_prefix [of "(ctx, [])" env 0] by simp
  with pre have "prefix (painted ?filled) (painted (fst (bar_loop env 0 (ctx, []))))"
    by (rule prefix_order.trans)
  also have "prefix (painted (fst (bar_loop env 0 (ctx, []))))
      (painted (surface (fst (draw p an (cv, prev)))))"
    unfolding shape by (rule title_facts)
  finally show ?thesis unfolding filled .
qed

section \<open>The claims about the palette and the missing analysis node\<close>





text \<open>
  Claim C6, as stated, fails. With no analysis node the effect of the live component
  returns before anything is drawn: the canvas keeps its empty surface, whereas a frame
  drawn from an all-zero sample begins with the fill of the background.
\<close>

theorem no_analyser_nothing_drawn:
  "VisualizerCanvas_effect (demo_props\<lparr>p_analyserNode := None\<rparr>) (Some demo_canvas, [])
     = (Some demo_canvas, [])
   \<and> painted (surface demo_canvas) = []
   \<and> hd (painted (surface (fst (draw demo_props \<lparr>bins = replicate 1024 0\<rparr> (demo_canvas, [])))))
     = ([], FillRect (ascii ''#000000'') 0 0 640 360)"
proof (intro conjI)
  show "VisualizerCanvas_effect (demo_props\<lparr>p_analyserNode := None\<rparr>) (Some demo_canvas, [])
     = (Some demo_canvas, [])"
    by (simp add: VisualizerCanvas_effect_def)
  show "painted (surface demo_canvas) = []"
    by (simp add: demo_canvas_def initial_ctx_def)
  have size: "resized demo_canvas = demo_canvas\<lparr>cwidth := 640, cheight := 360\<rparr>"
    by (simp add: resized_def demo_canvas_def set_width_def set_height_def)
  have "prefix ([] @ [([], FillRect (ascii ''#000000'') 0 0 640 360)])
      (painted (surface (fst (draw demo_props \<lparr>bins = replicate 1024 0\<rparr> (demo_canvas, [])))))"
    using live_frame_background [of demo_canvas demo_props "\<lparr>bins = replicate 1024 0\<rparr>" "[]"]
    unfolding size
    by (simp add: demo_canvas_def demo_props_def initial_ctx_def ascii_def)
  then show "hd (painted (surface (fst (draw demo_props \<lparr>bins = replicate 1024 0\<rparr> (demo_canvas, [])))))
     = ([], FillRect (ascii ''#000000'') 0 0 640 360)"
    by (auto simp: prefix_def)
qed

text \<open>
  Claim C6, amended. When no analysis node is attached, the effect of the live
  component returns before drawing: the canvas and the bar lengths are left as they
  were, so neither the static elements nor the bars are rendered.
\<close>

theorem no_analyser_no_frame:
  "p_analyserNode p = None \<Longrightarrow> VisualizerCanvas_effect p st = st"
  by (simp add: VisualizerCanvas_effect_def split: option.splits)

theorem no_analyser_no_frame_witness:
  "p_analyserNode (demo_props\<lparr>p_analyserNode := None\<rparr>) = None
   \<and> VisualizerCanvas_effect (demo_props\<lparr>p_analyserNode := None\<rparr>) (Some demo_canvas, [Some 3])
       = (Some demo_canvas, [Some 3])"
  using no_analyser_no_frame [of "demo_props\<lparr>p_analyserNode := None\<rparr>" "(Some demo_canvas, [Some 3])"]
  by simp

section \<open>The capture session\<close>

declare run_tasks.simps [simp del]

lemma restored_dispatch: "restored s \<Longrightarrow> restored (dispatch e s)"
  by (cases e)
     (simp_all add: restored_def recorder_ondataavailable_def recorder_onstop_def
        recorder_onerror_def stopRecording_def recorder_stop_def audio_ended_def
        play_then_def play_catch_def Let_def split: option.splits)

lemma restoring_step:
  assumes "restoring s" and "tasks s = e # es"
  shows "restoring (dispatch e (s\<lparr>tasks := es\<rparr>))"
proof (cases "restored s")
  case True
  then have "restored (s\<lparr>tasks := es\<rparr>)" by (simp add: restored_def)
  then have "restored (dispatch e (s\<lparr>tasks := es\<rparr>))" by (rule restored_dispatch)
  then show ?thesis by (simp add: restoring_def)
next
  case False
  with assms show ?thesis
    by (cases e)
       (auto simp add: restoring_def restored_def recorder_ondataavailable_def recorder_onstop_def
          recorder_onerror_def stopRecording_def recorder_stop_def audio_ended_def
          play_then_def play_catch_def Let_def split: option.splits)
qed

lemma restoring_run: "restoring s \<Longrightarrow> restored (run_tasks s) \<and> tasks (run_tasks s) = []"
proof (induction s rule: run_tasks.induct)
  case (1 s)
  show ?case
  proof (cases "tasks s")
    case Nil
    with "1.prems" show ?thesis
      by (subst (1 2) run_tasks.simps) (simp add: restoring_def)
  next
    case (Cons e es)
    from "1.IH" [OF Cons restoring_step [OF "1.prems" Cons]] Cons
    show ?thesis by (subst (1 2) run_tasks.simps) simp
  qed
qed

lemma capturing_encoder_fails: "capturing s \<Longrightarrow> restoring (encoder_fails conforming s)"
  by (auto simp add: capturing_def restoring_def encoder_fails_def split: option.splits)

text \<open>
  Claim C4. If the encoder reports an error while a capture is under way, then, once
  the platform has run the tasks queued, the analysis node is connected to the output
  again and the downloading flag is cleared: the error handler stops the recorder,
  whose stop event runs the handler that the success path runs. This holds whether
  the platform itself stops the failed recorder or only fires the error event.
\<close>

theorem encoder_error_restores_routing:
  assumes "capturing s"
  shows "analyserToDestination (run_tasks (encoder_fails conforming s))
       \<and> \<not> isDownloading (run_tasks (encoder_fails conforming s))
       \<and> tasks (run_tasks (encoder_fails conforming s)) = []"
  using restoring_run [OF capturing_encoder_fails [OF assms], of conforming]
  by (simp add: restored_def)

theorem encoder_error_restores_routing_witness:
  "capturing (play_then (handleDownload True True (loaded_app (ascii ''song.mp3''))))
   \<and> analyserToDestination (run_tasks (encoder_fails False
         (play_then (handleDownload True True (loaded_app (ascii ''song.mp3''))))))
   \<and> \<not> isDownloading (run_tasks (encoder_fails False
         (play_then (handleDownload True True (loaded_app (ascii ''song.mp3''))))))
   \<and> tasks (run_tasks (encoder_fails False
         (play_then (handleDownload True True (loaded_app (ascii ''song.mp3'')))))) = []"
proof -
  have h: "capturing (play_then (handleDownload True True (loaded_app (ascii ''song.mp3''))))"
    by (simp add: capturing_def play_then_def handleDownload_def loaded_app_def initial_app_def
          Let_def)
  from encoder_error_restores_routing [OF h, of False] h show ?thesis by simp
qed

lemma error_path_example:
  "downloads (run_tasks (encoder_fails False
       (play_then (handleDownload True True (loaded_app (ascii ''song.mp3''))))))
     = [(ascii ''song_visualizer.webm'', [])]
   \<and> recordingTaps (run_tasks (encoder_fails False
       (play_then (handleDownload True True (loaded_app (ascii ''song.mp3'')))))) = 0
   \<and> errorMsg (run_tasks (encoder_fails False
       (play_then (handleDownload True True (loaded_app (ascii ''song.mp3''))))))
     = Some (ascii ''An error occurred during video creation.'')"
  apply (subst (1 2 3) run_tasks.simps)
  apply (simp add: encoder_fails_def play_then_def handleDownload_def loaded_app_def
      initial_app_def Let_def recorder_onerror_def stopRecording_def recorder_stop_def)
  apply (subst (1 2 3) run_tasks.simps)
  apply (simp add: recorder_ondataavailable_def)
  apply (subst (1 2 3) run_tasks.simps)
  apply (simp add: recorder_onstop_def Let_def)
  apply (subst (1 2 3) run_tasks.simps)
  apply (simp add: download_name_def ascii_def)
  done

lemma natural_end_restores_routing:
  assumes "capturing s" and "endedListener s"
  shows "restored (run_tasks (dispatch Ended s))"
proof -
  have "restoring (dispatch Ended s)"
    using assms
    by (auto simp add: capturing_def restoring_def audio_ended_def stopRecording_def
          recorder_stop_def Let_def split: option.splits)
  then show ?thesis using restoring_run by blast
qed

text \<open>
  Claim C5, as stated, fails. \<open>handleDownload\<close> allocates the recorder before it calls
  \<open>play()\<close>, so the recorder exists when the rejection arrives; and the rejection
  handler does not release the recording tap.
\<close>

theorem play_rejected_recorder_allocated:
  "mediaRecorderRef (handleDownload True True (loaded_app (ascii ''song.mp3'')))
     = Some \<lparr> rstate = Inactive, mimeType = ascii ''video/webm; codecs=vp9,opus'', gathered = 0 \<rparr>
   \<and> mediaRecorderRef (play_catch (handleDownload True True (loaded_app (ascii ''song.mp3''))))
     = Some \<lparr> rstate = Inactive, mimeType = ascii ''video/webm; codecs=vp9,opus'', gathered = 0 \<rparr>
   \<and> recordingTaps (loaded_app (ascii ''song.mp3'')) = 0
   \<and> recordingTaps (play_catch (handleDownload True True (loaded_app (ascii ''song.mp3'')))) = 1"
  by (simp add: handleDownload_def play_catch_def loaded_app_def initial_app_def Let_def)

text \<open>
  Claim C5, amended. If starting playback for a capture fails, the recorder that
  \<open>handleDownload\<close> has already allocated is never started and no task is queued, the
  analysis node is reconnected to the output, a user-visible error is set, and the
  session is left not downloading.
\<close>

theorem play_rejected_restores_routing:
  assumes "\<not> isDownloading s" and "file_name s = Some name"
    and "analyserRef s" and "audioContextRef s" and "sourceRef s" and "audioRef s"
  shows "(case mediaRecorderRef (dispatch PlayRejected (handleDownload True vp9 s)) of
            None \<Rightarrow> False
          | Some r \<Rightarrow> rstate r = Inactive)
       \<and> tasks (dispatch PlayRejected (handleDownload True vp9 s)) = tasks s
       \<and> analyserToDestination (dispatch PlayRejected (handleDownload True vp9 s))
       \<and> \<not> isDownloading (dispatch PlayRejected (handleDownload True vp9 s))
       \<and> errorMsg (dispatch PlayRejected (handleDownload True vp9 s))
           = Some (ascii ''Could not start playback for recording.'')"
  using assms by (simp add: handleDownload_def play_catch_def Let_def)

theorem play_rejected_restores_routing_witness:
  "\<not> isDownloading (loaded_app (ascii ''song.mp3''))
   \<and> file_name (loaded_app (ascii ''song.mp3'')) = Some (ascii ''song.mp3'')
   \<and> analyserRef (loaded_app (ascii ''song.mp3'')) \<and> audioContextRef (loaded_app (ascii ''song.mp3''))
   \<and> sourceRef (loaded_app (ascii ''song.mp3'')) \<and> audioRef (loaded_app (ascii ''song.mp3''))
   \<and> analyserToDestination (dispatch PlayRejected (handleDownload True False (loaded_app (ascii ''song.mp3''))))
   \<and> \<not> isDownloading (dispatch PlayRejected (handleDownload True False (loaded_app (ascii ''song.mp3''))))
   \<and> errorMsg (dispatch PlayRejected (handleDownload True False (loaded_app (ascii ''song.mp3''))))
       = Some (ascii ''Could not start playback for recording.'')"
proof -
  have h: "\<not> isDownloading (loaded_app (ascii ''song.mp3''))"
    "file_name (loaded_app (ascii ''song.mp3'')) = Some (ascii ''song.mp3'')"
    "analyserRef (loaded_app (ascii ''song.mp3''))" "audioContextRef (loaded_app (ascii ''song.mp3''))"
    "sourceRef (loaded_app (ascii ''song.mp3''))" "audioRef (loaded_app (ascii ''song.mp3''))"
    by (simp_all add: loaded_app_def initial_app_def)
  from play_rejected_restores_routing [OF h, of False] h show ?thesis by blast
qed

section \<open>The output file and the palette\<close>

lemma hd_split_on: "split_on sep s = takeWhile (\<lambda>c. c \<noteq> sep) s # tl (split_on sep s)"
  by (induction s) (auto split: list.splits)

lemma download_name_first_dot:
  "download_name name = takeWhile (\<lambda>c. c \<noteq> 0x2E) name @ ascii ''_visualizer.webm''"
  by (subst download_name_def, subst hd_split_on) simp

lemma download_name_song: "download_name (ascii ''song.mp3'') = ascii ''song_visualizer.webm''"
  by (simp add: download_name_first_dot ascii_def)

lemma offscreen_resolution:
  assumes "\<not> isDownloading s" and "file_name s = Some name"
    and "analyserRef s" and "audioContextRef s" and "sourceRef s" and "audioRef s"
  shows "offscreenCanvas (handleDownload ctx_ok vp9 s) = Some (RESOLUTIONS (aspectRatio s))"
    and "RESOLUTIONS Ratio_9_16 = (1080, 1920)" and "RESOLUTIONS Ratio_16_9 = (1920, 1080)"
  using assms by (simp_all add: handleDownload_def RESOLUTIONS_def Let_def)

lemma download_name_one_dot:
  fixes base ext :: jsstring
  assumes "0x2E \<notin> set base" and "0x2E \<notin> set ext"
  shows "download_name (base @ 0x2E # ext) = strip_extension_spec (base @ 0x2E # ext) @ ascii ''_visualizer.webm''"
proof -
  have "takeWhile (\<lambda>c. c \<noteq> 0x2E) (base @ 0x2E # ext)
      = base @ takeWhile (\<lambda>c. c \<noteq> 0x2E) (0x2E # ext)"
    by (rule takeWhile_append2) (use assms(1) in auto)
  then have a: "takeWhile (\<lambda>c. c \<noteq> 0x2E) (base @ 0x2E # ext) = base" by simp
  have "dropWhile (\<lambda>c. c \<noteq> 0x2E) (rev ext @ 0x2E # rev base)
      = dropWhile (\<lambda>c. c \<noteq> 0x2E) (0x2E # rev base)"
    by (rule dropWhile_append2) (use assms(2) in auto)
  then have "dropWhile (\<lambda>c. c \<noteq> 0x2E) (rev ext @ 0x2E # rev base) = 0x2E # rev base"
    by simp
  then have b: "strip_extension_spec (base @ 0x2E # ext) = base"
    by (simp add: strip_extension_spec_def)
  show ?thesis by (simp add: download_name_first_dot a b)
qed

text \<open>
  Claim C7. The offscreen surface has the preset size of the aspect ratio, 1080 by
  1920 for 9:16 and 1920 by 1080 for 16:9 (\<open>offscreen_resolution\<close>), and \<open>song.mp3\<close>
  gives \<open>song_visualizer.webm\<close> (\<open>download_name_song\<close>). But the name is not the input
  name with its extension stripped: the code keeps what precedes the first dot, so
  \<open>my.song.mp3\<close> gives \<open>my_visualizer.webm\<close>, where stripping the extension gives
  \<open>my.song_visualizer.webm\<close>.
\<close>

theorem download_name_cut_at_first_dot:
  "download_name (ascii ''my.song.mp3'') = ascii ''my_visualizer.webm''
   \<and> strip_extension_spec (ascii ''my.song.mp3'') @ ascii ''_visualizer.webm''
       = ascii ''my.song_visualizer.webm''
   \<and> download_name (ascii ''my.song.mp3'')
       \<noteq> strip_extension_spec (ascii ''my.song.mp3'') @ ascii ''_visualizer.webm''"
  by (simp add: download_name_first_dot strip_extension_spec_def ascii_def)

text \<open>
  Claim C9. The provider's result becomes the palette only if it has at least two
  elements. When the provider fails or its result is shorter, the palette is the one
  before, and a user-visible error is set. In every case the generating flag is reset,
  and nothing but the palette, the error and the flag changes.
\<close>

theorem palette_accepted_only_if_valid:
  "colors (handleGeneratePalette outcome s)
     = (case outcome of
          Inl err \<Rightarrow> colors s
        | Inr palette \<Rightarrow> if 2 \<le> length palette then palette else colors s)
   \<and> (errorMsg (handleGeneratePalette outcome s) = None)
     = (case outcome of Inl err \<Rightarrow> False | Inr palette \<Rightarrow> 2 \<le> length palette)
   \<and> \<not> isGenerating (handleGeneratePalette outcome s)
   \<and> (handleGeneratePalette outcome s)
        \<lparr>colors := colors s, errorMsg := errorMsg s, isGenerating := isGenerating s\<rparr> = s"
  by (cases outcome) (auto simp add: handleGeneratePalette_def Let_def)

lemma palette_example:
  "colors (handleGeneratePalette (generateColorPalette (Json (Some
       [ascii ''#01030a'', ascii ''#00FFD1'', ascii ''#FF6B00'', ascii ''#00BFFF'', ascii ''#FFD700''])))
       initial_app)
     = [ascii ''#01030a'', ascii ''#00FFD1'', ascii ''#FF6B00'', ascii ''#00BFFF'', ascii ''#FFD700'']
   \<and> colors (handleGeneratePalette (generateColorPalette (Json (Some [ascii ''#01030a''])))
       initial_app) = colors initial_app
   \<and> errorMsg (handleGeneratePalette (generateColorPalette (Json (Some [ascii ''#01030a''])))
       initial_app)
     = Some (ascii ''AI did not return a valid palette. Please try a different prompt.'')
   \<and> errorMsg (handleGeneratePalette (generateColorPalette CallFailed) initial_app)
     = Some (ascii ''Could not generate a color palette. The AI service might be unavailable or the prompt was invalid.'')"
  by (simp add: handleGeneratePalette_def generateColorPalette_def Let_def)

end
